theory Spec2Isabelle
  imports Complex_Main
begin

section \<open>Data model (types/plan.ts)\<close>

text \<open>
  Coordinates, thicknesses and lengths are JavaScript numbers; they are modelled as
  real numbers, so rounding, NaN and the infinities are outside the model. Node and
  wall identifiers are integers. The record fields carry a prefix because the source's
  field names (\<open>x\<close>, \<open>y\<close>, \<open>id\<close>, \<open>a\<close>, \<open>b\<close>) would otherwise become global constants;
  the \<open>name\<close> fields of walls and rooms are display strings that no function below reads
  and are left out.
\<close>

record Vec2 =
  px :: real
  py :: real

record NodePoint =
  nid :: int
  nx :: real
  ny :: real

record Wall =
  wid :: int
  wa :: int
  wb :: int
  thickness :: real

record Room =
  rid :: nat
  nodeIds :: "int list"
  points :: "Vec2 list"

section \<open>Run-time errors\<close>

text \<open>
  None of the functions below contains a \<open>throw\<close>; the only way they can fail is a
  property read on \<open>undefined\<close>, which happens when an array is read out of range and a
  field of the element is then used. \<open>elem\<close> is such a read: it fails with \<open>TypeError\<close>
  out of range.
\<close>

datatype error = TypeError

definition elem :: "'a list \<Rightarrow> nat \<Rightarrow> error + 'a" where
  "elem xs i = (if i < length xs then Inr (xs ! i) else Inl TypeError)"

definition bind_e :: "error + 'a \<Rightarrow> ('a \<Rightarrow> error + 'b) \<Rightarrow> error + 'b" where
  "bind_e m f = (case m of Inl e \<Rightarrow> Inl e | Inr v \<Rightarrow> f v)"

section \<open>Geometry primitives (utils/geometry.ts)\<close>

definition hypot :: "real \<Rightarrow> real \<Rightarrow> real" where
  "hypot dx dy = sqrt (dx * dx + dy * dy)"

definition distance :: "Vec2 \<Rightarrow> Vec2 \<Rightarrow> real" where
  "distance a b = (let dx = px a - px b; dy = py a - py b in hypot dx dy)"

text \<open>The loop \<open>for (i = 0; i < points.length; i += 1) sum += ...\<close> shared by
  \<open>polygonArea\<close> and \<open>polygonAreaSigned\<close>, run over the list of its indices
  (the accumulator \<open>sum\<close> is called \<open>s\<close>).\<close>

fun crossSum :: "Vec2 list \<Rightarrow> nat list \<Rightarrow> real \<Rightarrow> error + real" where
  "crossSum pts [] s = Inr s"
| "crossSum pts (i # is) s =
     bind_e (elem pts i) (\<lambda>a.
     bind_e (elem pts ((i + 1) mod length pts)) (\<lambda>b.
       crossSum pts is (s + (px a * py b - px b * py a))))"

definition polygonArea :: "Vec2 list \<Rightarrow> error + real" where
  "polygonArea pts =
     bind_e (crossSum pts [0..<length pts] 0) (\<lambda>s. Inr \<bar>s / 2\<bar>)"

definition polygonAreaSigned :: "Vec2 list \<Rightarrow> error + real" where
  "polygonAreaSigned pts =
     bind_e (crossSum pts [0..<length pts] 0) (\<lambda>s. Inr (s / 2))"

definition EPS :: real where
  "EPS = 1 / 1000000"

definition lineIntersection :: "Vec2 \<Rightarrow> Vec2 \<Rightarrow> Vec2 \<Rightarrow> Vec2 \<Rightarrow> Vec2 option" where
  "lineIntersection p1 d1 p2 d2 =
     (let cross = px d1 * py d2 - py d1 * px d2 in
      if \<bar>cross\<bar> < EPS then None
      else let t = ((px p2 - px p1) * py d2 - (py p2 - py p1) * px d2) / cross
           in Some \<lparr>px = px p1 + px d1 * t, py = py p1 + py d1 * t\<rparr>)"

record Edge =
  ep :: Vec2
  en :: Vec2
  eo :: real
  ea :: Vec2
  ed :: Vec2

text \<open>
  \<open>getEdge\<close> is a closure over \<open>points\<close>, \<open>offsets\<close> and \<open>sign\<close>. \<open>Math.hypot(dx, dy) || 1\<close>
  replaces a zero length by 1. \<open>offsets[index]\<close> is a plain number read; the function is
  only reached when both arrays have the same length.
\<close>

definition getEdge :: "Vec2 list \<Rightarrow> real list \<Rightarrow> real \<Rightarrow> nat \<Rightarrow> error + Edge" where
  "getEdge pts offsets sign index =
     bind_e (elem pts index) (\<lambda>a.
     bind_e (elem pts ((index + 1) mod length pts)) (\<lambda>b.
       let dx = px b - px a;
           dy = py b - py a;
           len = (if hypot dx dy = 0 then 1 else hypot dx dy);
           nx = (sign * - dy) / len;
           ny = (sign * dx) / len;
           offset = offsets ! index
       in Inr \<lparr>ep = \<lparr>px = px a + nx * offset, py = py a + ny * offset\<rparr>,
                en = \<lparr>px = nx, py = ny\<rparr>,
                eo = offset,
                ea = a,
                ed = \<lparr>px = dx, py = dy\<rparr>\<rparr>))"

text \<open>One round of the main loop of \<open>offsetPolygon\<close>: the corner pushed for index \<open>i\<close>.
  The source's \<open>(i - 1 + points.length) % points.length\<close> is written \<open>(i + n - 1) mod n\<close>,
  since subtraction on \<open>nat\<close> truncates.\<close>

definition offsetCorner :: "Vec2 list \<Rightarrow> real list \<Rightarrow> real \<Rightarrow> nat \<Rightarrow> error + Vec2" where
  "offsetCorner pts offsets sign i =
     bind_e (getEdge pts offsets sign ((i + length pts - 1) mod length pts)) (\<lambda>prevEdge.
     bind_e (getEdge pts offsets sign i) (\<lambda>nextEdge.
       case lineIntersection (ep prevEdge) (ed prevEdge) (ep nextEdge) (ed nextEdge) of
         Some intersect \<Rightarrow> Inr intersect
       | None \<Rightarrow>
           let prevOffset = \<lparr>px = px (ea prevEdge) + px (en prevEdge) * eo prevEdge,
                             py = py (ea prevEdge) + py (en prevEdge) * eo prevEdge\<rparr>;
               nextOffset = \<lparr>px = px (ea nextEdge) + px (en nextEdge) * eo nextEdge,
                             py = py (ea nextEdge) + py (en nextEdge) * eo nextEdge\<rparr>
           in Inr \<lparr>px = (px prevOffset + px nextOffset) / 2,
                    py = (py prevOffset + py nextOffset) / 2\<rparr>))"

fun offsetLoop :: "Vec2 list \<Rightarrow> real list \<Rightarrow> real \<Rightarrow> nat list \<Rightarrow> Vec2 list \<Rightarrow> error + Vec2 list" where
  "offsetLoop pts offsets sign [] result = Inr result"
| "offsetLoop pts offsets sign (i # is) result =
     bind_e (offsetCorner pts offsets sign i) (\<lambda>corner.
       offsetLoop pts offsets sign is (result @ [corner]))"

text \<open>\<open>offsetPolygon\<close>: \<open>Inr None\<close> is the source's \<open>null\<close>.\<close>

definition offsetPolygon :: "Vec2 list \<Rightarrow> real list \<Rightarrow> error + Vec2 list option" where
  "offsetPolygon pts offsets =
     (if length pts < 3 \<or> length offsets \<noteq> length pts then Inr None
      else bind_e (polygonAreaSigned pts) (\<lambda>area.
           let sign = (if area \<ge> 0 then 1 else -1) in
           bind_e (offsetLoop pts offsets sign [0..<length pts] []) (\<lambda>result.
             Inr (Some result))))"

section \<open>Inner metrics (utils/planMetrics.ts)\<close>

text \<open>
  A \<open>WallEdgeMap\<close> is a \<open>Map<string, Wall[]>\<close> keyed by \<open>edgeKey(a, b)\<close>, the string
  \<open>min-max\<close> of the two ids. For integers that string determines the pair
  \<open>(min, max)\<close>, which is the key here.
\<close>

type_synonym WallEdgeMap = "int \<times> int \<Rightarrow> Wall list option"

definition edgeKey :: "int \<Rightarrow> int \<Rightarrow> int \<times> int" where
  "edgeKey a b = (min a b, max a b)"

text \<open>\<open>(wallEdgeMap.get(edgeKey(nodeId, nextId)) || [])[0]\<close>: the first wall stored for the
  edge, \<open>None\<close> for \<open>undefined\<close>.\<close>

definition firstWall :: "WallEdgeMap \<Rightarrow> int \<Rightarrow> int \<Rightarrow> Wall option" where
  "firstWall wallEdgeMap nodeId nextId =
     (case wallEdgeMap (edgeKey nodeId nextId) of
        None \<Rightarrow> None
      | Some ws \<Rightarrow> (case ws of [] \<Rightarrow> None | wall # _ \<Rightarrow> Some wall))"

definition getRoomOffsets :: "Room \<Rightarrow> WallEdgeMap \<Rightarrow> real \<Rightarrow> real \<Rightarrow> real list" where
  "getRoomOffsets room wallEdgeMap defaultWallThickness scale =
     map (\<lambda>index.
            let nodeId = nodeIds room ! index;
                nextId = nodeIds room ! ((index + 1) mod length (nodeIds room));
                wall = firstWall wallEdgeMap nodeId nextId;
                thick = (case wall of Some w \<Rightarrow> thickness w | None \<Rightarrow> defaultWallThickness)
            in (thick * scale) / 2)
         [0..<length (nodeIds room)]"

definition getRoomInnerPolygon ::
    "Room \<Rightarrow> WallEdgeMap \<Rightarrow> real \<Rightarrow> real \<Rightarrow> error + Vec2 list option" where
  "getRoomInnerPolygon room wallEdgeMap defaultWallThickness scale =
     (let offsets = getRoomOffsets room wallEdgeMap defaultWallThickness scale in
      bind_e (offsetPolygon (points room) offsets) (\<lambda>inner.
        case inner of
          None \<Rightarrow> Inr None
        | Some ps \<Rightarrow> if length ps < 3 then Inr None else Inr (Some ps)))"

text \<open>\<open>getRoomArea\<close> of geometry.ts; its guard \<open>!room || !Array.isArray(room.points)\<close> is
  false for every value of type \<open>Room\<close>.\<close>

definition getRoomArea :: "Room \<Rightarrow> real \<Rightarrow> error + real" where
  "getRoomArea room scale =
     bind_e (polygonArea (points room)) (\<lambda>areaPx. Inr (areaPx / (scale * scale)))"

definition getRoomInnerArea :: "Room \<Rightarrow> WallEdgeMap \<Rightarrow> real \<Rightarrow> real \<Rightarrow> error + real" where
  "getRoomInnerArea room wallEdgeMap defaultWallThickness scale =
     bind_e (getRoomInnerPolygon room wallEdgeMap defaultWallThickness scale) (\<lambda>inner.
       case inner of
         None \<Rightarrow> getRoomArea room scale
       | Some ps \<Rightarrow> bind_e (polygonArea ps) (\<lambda>area. Inr (area / (scale * scale))))"

fun perimeterLoop :: "Vec2 list \<Rightarrow> nat list \<Rightarrow> real \<Rightarrow> error + real" where
  "perimeterLoop pts [] s = Inr s"
| "perimeterLoop pts (i # is) s =
     bind_e (elem pts i) (\<lambda>a.
     bind_e (elem pts ((i + 1) mod length pts)) (\<lambda>b.
       perimeterLoop pts is (s + distance a b)))"

definition getRoomPerimeter ::
    "Room \<Rightarrow> WallEdgeMap \<Rightarrow> real \<Rightarrow> real \<Rightarrow> bool \<Rightarrow> error + real" where
  "getRoomPerimeter room wallEdgeMap defaultWallThickness scale useInnerPolygon =
     bind_e (if useInnerPolygon
             then bind_e (getRoomInnerPolygon room wallEdgeMap defaultWallThickness scale)
                    (\<lambda>inner. Inr (case inner of Some ps \<Rightarrow> ps | None \<Rightarrow> points room))
             else Inr (points room)) (\<lambda>pts.
       if length pts = 0 then Inr 0
       else bind_e (perimeterLoop pts [0..<length pts] 0) (\<lambda>s. Inr (s / scale)))"

text \<open>
  \<open>getInnerLengthByWallId\<close>. The result \<open>Map<number, number>\<close> is a partial map from wall
  ids to lengths. \<open>existing ? Math.min(existing, length) : length\<close> tests the truthiness
  of \<open>existing\<close>: \<open>undefined\<close> and the number 0 both take the second branch. The reads
  \<open>room.nodeIds[i]\<close> are in range, since the inner polygon exists only when
  \<open>nodeIds\<close> and \<open>points\<close> have the same length.
\<close>

fun innerLengthLoop ::
    "Room \<Rightarrow> WallEdgeMap \<Rightarrow> real \<Rightarrow> Vec2 list \<Rightarrow> nat list \<Rightarrow> (int \<Rightarrow> real option)
     \<Rightarrow> error + (int \<Rightarrow> real option)" where
  "innerLengthLoop room wallEdgeMap scale inner [] m = Inr m"
| "innerLengthLoop room wallEdgeMap scale inner (i # is) m =
     (let nodeId = nodeIds room ! i;
          nextId = nodeIds room ! ((i + 1) mod length (nodeIds room))
      in case firstWall wallEdgeMap nodeId nextId of
           None \<Rightarrow> innerLengthLoop room wallEdgeMap scale inner is m
         | Some wall \<Rightarrow>
             bind_e (elem inner i) (\<lambda>p.
             bind_e (elem inner ((i + 1) mod length inner)) (\<lambda>q.
               let len = distance p q / scale;
                   existing = m (wid wall)
               in innerLengthLoop room wallEdgeMap scale inner is
                    (m(wid wall \<mapsto>
                        (case existing of
                           None \<Rightarrow> len
                         | Some e \<Rightarrow> if e \<noteq> 0 then min e len else len))))))"

fun innerLengthRooms ::
    "Room list \<Rightarrow> WallEdgeMap \<Rightarrow> real \<Rightarrow> real \<Rightarrow> (int \<Rightarrow> real option)
     \<Rightarrow> error + (int \<Rightarrow> real option)" where
  "innerLengthRooms [] wallEdgeMap defaultWallThickness scale m = Inr m"
| "innerLengthRooms (room # rooms) wallEdgeMap defaultWallThickness scale m =
     bind_e (getRoomInnerPolygon room wallEdgeMap defaultWallThickness scale) (\<lambda>inner.
       case inner of
         None \<Rightarrow> innerLengthRooms rooms wallEdgeMap defaultWallThickness scale m
       | Some ps \<Rightarrow>
           if length ps \<noteq> length (points room)
           then innerLengthRooms rooms wallEdgeMap defaultWallThickness scale m
           else bind_e (innerLengthLoop room wallEdgeMap scale ps [0..<length ps] m) (\<lambda>m'.
                  innerLengthRooms rooms wallEdgeMap defaultWallThickness scale m'))"

definition getInnerLengthByWallId ::
    "Room list \<Rightarrow> WallEdgeMap \<Rightarrow> real \<Rightarrow> real \<Rightarrow> error + (int \<Rightarrow> real option)" where
  "getInnerLengthByWallId rooms wallEdgeMap defaultWallThickness scale =
     innerLengthRooms rooms wallEdgeMap defaultWallThickness scale Map.empty"

section \<open>Room inference (utils/rooms.ts)\<close>

subsection \<open>Maps with insertion order\<close>

text \<open>
  \<open>adjacency\<close> and \<open>facesByComponent\<close> are JavaScript \<open>Map\<close>s that the code iterates
  with \<open>forEach\<close>, in insertion order of the keys: they are association lists with one
  entry per key. \<open>nodeMap\<close>, \<open>angleMap\<close> and \<open>componentByNode\<close> are only read with
  \<open>get\<close> and \<open>has\<close>: they are partial functions.
\<close>

definition hasKey :: "('k \<times> 'v) list \<Rightarrow> 'k \<Rightarrow> bool" where
  "hasKey m k = (map_of m k \<noteq> None)"

definition ensureKey :: "('k \<times> 'v list) list \<Rightarrow> 'k \<Rightarrow> ('k \<times> 'v list) list" where
  \<comment> \<open>\<open>if (!m.has(k)) m.set(k, [])\<close>\<close>
  "ensureKey m k = (if hasKey m k then m else m @ [(k, [])])"

definition pushTo :: "('k \<times> 'v list) list \<Rightarrow> 'k \<Rightarrow> 'v \<Rightarrow> ('k \<times> 'v list) list" where
  \<comment> \<open>\<open>m.get(k)?.push(v)\<close>\<close>
  "pushTo m k v = map (\<lambda>(k', vs). if k' = k then (k', vs @ [v]) else (k', vs)) m"

subsection \<open>Adjacency and the rotation system\<close>

definition nodeMapOf :: "NodePoint list \<Rightarrow> (int \<Rightarrow> NodePoint option)" where
  \<comment> \<open>\<open>new Map(nodes.map((node) => [node.id, node]))\<close>: a later node replaces an earlier
      one with the same id\<close>
  "nodeMapOf nodes = foldl (\<lambda>m node. m(nid node \<mapsto> node)) Map.empty nodes"

definition addWall :: "(int \<times> int list) list \<Rightarrow> Wall \<Rightarrow> (int \<times> int list) list" where
  "addWall adjacency wall =
     (let adj1 = ensureKey adjacency (wa wall);
          adj2 = ensureKey adj1 (wb wall);
          adj3 = pushTo adj2 (wa wall) (wb wall)
      in pushTo adj3 (wb wall) (wa wall))"

definition buildAdjacency :: "Wall list \<Rightarrow> (int \<times> int list) list" where
  "buildAdjacency walls = foldl addWall [] walls"

text \<open>\<open>[...new Set(neighbors)]\<close>: the first occurrence of every value, in order.\<close>

definition dedupe :: "'a list \<Rightarrow> 'a list" where
  "dedupe vs = foldl (\<lambda>acc v. if v \<in> set acc then acc else acc @ [v]) [] vs"

text \<open>
  \<open>Math.atan2\<close> is a library function; it is modelled by its mathematical value, the
  angle in \<open>(-\<pi>, \<pi>]\<close> of the vector \<open>(x, y)\<close>.
\<close>

definition atan2 :: "real \<Rightarrow> real \<Rightarrow> real" where
  "atan2 y x =
     (if x > 0 then arctan (y / x)
      else if x < 0 then (if y \<ge> 0 then arctan (y / x) + pi else arctan (y / x) - pi)
      else if y > 0 then pi / 2
      else if y < 0 then - (pi / 2)
      else 0)"

text \<open>The comparator handed to \<open>sort\<close> for the neighbours of \<open>node\<close>.\<close>

definition compareAngle :: "(int \<Rightarrow> NodePoint option) \<Rightarrow> NodePoint \<Rightarrow> int \<Rightarrow> int \<Rightarrow> real" where
  "compareAngle nodeMap node a b =
     (case (nodeMap a, nodeMap b) of
        (Some na, Some nb) \<Rightarrow>
          (let angleA = atan2 (ny na - ny node) (nx na - nx node);
               angleB = atan2 (ny nb - ny node) (nx nb - nx node)
           in angleA - angleB)
      | _ \<Rightarrow> 0)"

text \<open>
  \<open>Array.prototype.sort\<close> with a comparator is a stable sort; it is modelled as the
  stable insertion sort. (With the comparator above, which answers 0 for a neighbour
  that is no node, the order a JavaScript engine produces is implementation-defined;
  the general theorems below use only that the result is a permutation of the input.)
\<close>

fun insertSorted :: "('a \<Rightarrow> 'a \<Rightarrow> real) \<Rightarrow> 'a \<Rightarrow> 'a list \<Rightarrow> 'a list" where
  "insertSorted cmp v [] = [v]"
| "insertSorted cmp v (w # ws) =
     (if cmp v w < 0 then v # w # ws else w # insertSorted cmp v ws)"

definition sortBy :: "('a \<Rightarrow> 'a \<Rightarrow> real) \<Rightarrow> 'a list \<Rightarrow> 'a list" where
  "sortBy cmp vs = foldl (\<lambda>acc v. insertSorted cmp v acc) [] vs"

definition buildAngleMap ::
    "(int \<Rightarrow> NodePoint option) \<Rightarrow> (int \<times> int list) list \<Rightarrow> (int \<Rightarrow> int list option)" where
  "buildAngleMap nodeMap adjacency =
     foldl (\<lambda>angleMap (nodeId, neighbors).
              case nodeMap nodeId of
                None \<Rightarrow> angleMap
              | Some node \<Rightarrow>
                  angleMap(nodeId \<mapsto> sortBy (compareAngle nodeMap node) (dedupe neighbors)))
           Map.empty adjacency"

fun indexOf :: "'a list \<Rightarrow> 'a \<Rightarrow> nat option" where
  "indexOf [] v = None"
| "indexOf (w # ws) v = (if w = v then Some 0 else map_option Suc (indexOf ws v))"

text \<open>\<open>nextNeighbor\<close>: the neighbour just before \<open>fromId\<close> in the rotation of \<open>nodeId\<close>;
  \<open>None\<close> is the source's \<open>null\<close>. \<open>(index - 1 + list.length) % list.length\<close> is written
  without the truncating subtraction.\<close>

definition nextNeighbor :: "(int \<Rightarrow> int list option) \<Rightarrow> int \<Rightarrow> int \<Rightarrow> int option" where
  "nextNeighbor angleMap nodeId fromId =
     (case angleMap nodeId of
        None \<Rightarrow> None
      | Some list \<Rightarrow>
          if length list < 2 then None
          else (case indexOf list fromId of
                  None \<Rightarrow> None
                | Some index \<Rightarrow>
                    let nextIndex = (index + length list - 1) mod length list
                    in Some (list ! nextIndex)))"

subsection \<open>Face tracing\<close>

text \<open>
  The loop \<open>while (safety < 500)\<close> of one trace. The state is \<open>safety\<close>, \<open>currentU\<close>,
  \<open>currentV\<close>, \<open>path\<close> and \<open>traversed\<close>; the result is \<open>(closed, path, traversed)\<close> (the flag
  is called \<open>isClosed\<close> below).
  A directed edge key \<open>`${u}->${v}`\<close> is the pair \<open>(u, v)\<close>.
\<close>

function traceLoop ::
    "(int \<Rightarrow> int list option) \<Rightarrow> int \<Rightarrow> int \<Rightarrow> nat \<Rightarrow> int \<Rightarrow> int \<Rightarrow> int list \<Rightarrow> (int \<times> int) list
     \<Rightarrow> bool \<times> int list \<times> (int \<times> int) list" where
  "traceLoop angleMap startU startV safety currentU currentV path traversed =
     (if safety < 500 then
        (let traversed' = traversed @ [(currentU, currentV)];
             path' = path @ [currentV]
         in case nextNeighbor angleMap currentV currentU of
              None \<Rightarrow> (False, path', traversed')
            | Some next \<Rightarrow>
                if currentV = startU \<and> next = startV then (True, path', traversed')
                else traceLoop angleMap startU startV (safety + 1) currentV next path' traversed')
      else (False, path, traversed))"
  by pat_completeness auto
termination
  by (relation "measure (\<lambda>(angleMap, startU, startV, safety, rest). 500 - safety)") auto

declare traceLoop.simps [simp del]

record Face =
  fnodeIds :: "int list"
  fpoints :: "Vec2 list"
  area :: real

text \<open>The local signed \<open>polygonArea\<close> of \<open>buildRoomsFromWalls\<close>.\<close>

definition signedArea :: "Vec2 list \<Rightarrow> error + real" where
  "signedArea pts = bind_e (crossSum pts [0..<length pts] 0) (\<lambda>area. Inr (area / 2))"

text \<open>The body of \<open>directions.forEach\<close>: one start edge, with the state
  \<open>(visited, faces)\<close>.\<close>

definition traceFrom ::
    "(int \<Rightarrow> NodePoint option) \<Rightarrow> (int \<Rightarrow> int list option) \<Rightarrow> (int \<times> int) set \<times> Face list
     \<Rightarrow> int \<times> int \<Rightarrow> error + (int \<times> int) set \<times> Face list" where
  "traceFrom nodeMap angleMap st start =
     (case st of (visited, faces) \<Rightarrow>
      case start of (startU, startV) \<Rightarrow>
      if (startU, startV) \<in> visited then Inr (visited, faces)
      else case traceLoop angleMap startU startV 0 startU startV [startU] [] of
        (isClosed, path, traversed) \<Rightarrow>
          if isClosed \<and> length path \<ge> 4 then
            (let visited' = visited \<union> set traversed;
                 cycle = butlast path;
                 pts = map (\<lambda>node. \<lparr>px = nx node, py = ny node\<rparr>) (List.map_filter nodeMap cycle)
             in if length pts \<ge> 3 then
                  bind_e (signedArea pts) (\<lambda>a.
                    if \<bar>a\<bar> > 1 / 10000
                    then Inr (visited', faces @ [\<lparr>fnodeIds = cycle, fpoints = pts, area = a\<rparr>])
                    else Inr (visited', faces))
                else Inr (visited', faces))
          else Inr (visited, faces))"

fun traceWalls ::
    "(int \<Rightarrow> NodePoint option) \<Rightarrow> (int \<Rightarrow> int list option) \<Rightarrow> (int \<times> int) set \<times> Face list
     \<Rightarrow> Wall list \<Rightarrow> error + (int \<times> int) set \<times> Face list" where
  "traceWalls nodeMap angleMap st [] = Inr st"
| "traceWalls nodeMap angleMap st (wall # walls) =
     bind_e (traceFrom nodeMap angleMap st (wa wall, wb wall)) (\<lambda>st1.
     bind_e (traceFrom nodeMap angleMap st1 (wb wall, wa wall)) (\<lambda>st2.
       traceWalls nodeMap angleMap st2 walls))"

subsection \<open>Connected components\<close>

text \<open>
  The breadth-first labelling of \<open>componentByNode\<close>. \<open>visitNeighbors\<close> is the
  \<open>neighbors.forEach\<close> in the body of the \<open>while (queue.length)\<close> loop, \<open>bfsLoop\<close> the
  loop itself. It terminates because every round either labels a node that had no
  label or shortens the queue.
\<close>

fun visitNeighbors ::
    "(int \<Rightarrow> int option) \<Rightarrow> int \<Rightarrow> int list \<Rightarrow> int list \<Rightarrow> (int \<Rightarrow> int option) \<times> int list" where
  "visitNeighbors componentByNode componentId queue [] = (componentByNode, queue)"
| "visitNeighbors componentByNode componentId queue (next # rest) =
     (if componentByNode next = None then visitNeighbors (componentByNode(next \<mapsto> componentId)) componentId (queue @ [next]) rest
      else visitNeighbors componentByNode componentId queue rest)"

definition neighborsOf :: "(int \<times> int list) list \<Rightarrow> int \<Rightarrow> int list" where
  "neighborsOf adjacency current = (case map_of adjacency current of Some ns \<Rightarrow> ns | None \<Rightarrow> [])"

definition unmarked :: "(int \<times> int list) list \<Rightarrow> (int \<Rightarrow> int option) \<Rightarrow> int set" where
  "unmarked adjacency componentByNode = {v \<in> \<Union> (set ` snd ` set adjacency). componentByNode v = None}"

lemma finite_unmarked: "finite (unmarked adjacency componentByNode)"
  by (simp add: unmarked_def)

lemma visitNeighbors_mono:
  "visitNeighbors componentByNode componentId queue ns = (componentByNode', queue') \<Longrightarrow> componentByNode v \<noteq> None \<Longrightarrow> componentByNode' v \<noteq> None"
  by (induction ns arbitrary: componentByNode queue) (auto split: if_splits)

lemma visitNeighbors_mono':
  "visitNeighbors componentByNode componentId queue ns = (componentByNode', queue')
   \<Longrightarrow> componentByNode' v = None \<Longrightarrow> componentByNode v = None"
  using visitNeighbors_mono by blast

lemma visitNeighbors_same:
  "visitNeighbors componentByNode componentId queue ns = (componentByNode', queue') \<Longrightarrow> \<forall>n \<in> set ns. componentByNode n \<noteq> None
   \<Longrightarrow> componentByNode' = componentByNode \<and> queue' = queue"
  by (induction ns arbitrary: componentByNode queue) (auto split: if_splits)

lemma visitNeighbors_marks:
  "visitNeighbors componentByNode componentId queue ns = (componentByNode', queue') \<Longrightarrow> n \<in> set ns \<Longrightarrow> componentByNode' n \<noteq> None"
proof (induction ns arbitrary: componentByNode queue)
  case Nil
  then show ?case by simp
next
  case (Cons a ns)
  then show ?case
    by (auto split: if_splits dest: visitNeighbors_mono)
qed

lemma neighborsOf_subset: "set (neighborsOf adjacency current) \<subseteq> \<Union> (set ` snd ` set adjacency)"
proof
  fix v assume "v \<in> set (neighborsOf adjacency current)"
  then obtain ns where "map_of adjacency current = Some ns" "v \<in> set ns"
    by (cases "map_of adjacency current") (auto simp: neighborsOf_def)
  then have "(current, ns) \<in> set adjacency" "v \<in> set ns"
    by (auto dest: map_of_SomeD)
  then show "v \<in> \<Union> (set ` snd ` set adjacency)" by force
qed

lemma visitNeighbors_measure:
  assumes "visitNeighbors componentByNode componentId queue (neighborsOf adjacency current) = (componentByNode', queue')"
  shows "unmarked adjacency componentByNode' \<subset> unmarked adjacency componentByNode
         \<or> (unmarked adjacency componentByNode' = unmarked adjacency componentByNode \<and> queue' = queue)"
proof (cases "\<forall>n \<in> set (neighborsOf adjacency current). componentByNode n \<noteq> None")
  case True
  with assms visitNeighbors_same show ?thesis by blast
next
  case False
  then obtain n where n: "n \<in> set (neighborsOf adjacency current)" "componentByNode n = None" by blast
  have "n \<in> unmarked adjacency componentByNode"
    using n neighborsOf_subset [of adjacency current] by (auto simp: unmarked_def)
  moreover have "n \<notin> unmarked adjacency componentByNode'"
    using visitNeighbors_marks [OF assms n(1)] by (simp add: unmarked_def)
  moreover have "unmarked adjacency componentByNode' \<subseteq> unmarked adjacency componentByNode"
    using visitNeighbors_mono' [OF assms] by (auto simp: unmarked_def)
  ultimately show ?thesis by blast
qed

function bfsLoop ::
    "(int \<times> int list) list \<Rightarrow> (int \<Rightarrow> int option) \<Rightarrow> int \<Rightarrow> int list \<Rightarrow> (int \<Rightarrow> int option)" where
  "bfsLoop adjacency componentByNode componentId [] = componentByNode"
| "bfsLoop adjacency componentByNode componentId (current # queue) =
     (case visitNeighbors componentByNode componentId queue (neighborsOf adjacency current) of
        (componentByNode', queue') \<Rightarrow> bfsLoop adjacency componentByNode' componentId queue')"
  by pat_completeness auto
termination
proof (relation "inv_image (finite_psubset <*lex*> measure length)
                   (\<lambda>(adjacency, componentByNode, componentId, queue).
                       (unmarked adjacency componentByNode, queue))")
  show "wf (inv_image (finite_psubset <*lex*> measure length)
              (\<lambda>(adjacency, componentByNode, componentId, queue).
                  (unmarked adjacency componentByNode, queue)))"
    by (intro wf_inv_image wf_lex_prod wf_finite_psubset wf_measure)
next
  fix adjacency :: "(int \<times> int list) list"
  fix componentByNode componentId current queue x y
  assume "(x, y) = visitNeighbors componentByNode componentId queue (neighborsOf adjacency current)"
  then have "visitNeighbors componentByNode componentId queue (neighborsOf adjacency current) = (x, y)"
    by simp
  from visitNeighbors_measure [OF this]
  show "((adjacency, x, componentId, y), (adjacency, componentByNode, componentId, current # queue))
        \<in> inv_image (finite_psubset <*lex*> measure length)
              (\<lambda>(adjacency, componentByNode, componentId, queue).
                  (unmarked adjacency componentByNode, queue))"
    by (auto simp: finite_psubset_def finite_unmarked)
qed

definition componentsStep ::
    "(int \<times> int list) list \<Rightarrow> (int \<Rightarrow> int option) \<times> int \<Rightarrow> int \<times> int list
     \<Rightarrow> (int \<Rightarrow> int option) \<times> int" where
  \<comment> \<open>the body of \<open>adjacency.forEach((_, nodeId) => ...)\<close>, with the state
      \<open>(componentByNode, componentId)\<close>\<close>
  "componentsStep adjacency st entry =
     (case st of (componentByNode, componentId) \<Rightarrow>
      case entry of (nodeId, _) \<Rightarrow>
        if componentByNode nodeId \<noteq> None then (componentByNode, componentId)
        else (bfsLoop adjacency (componentByNode(nodeId \<mapsto> componentId)) componentId [nodeId],
              componentId + 1))"

definition buildComponents :: "(int \<times> int list) list \<Rightarrow> (int \<Rightarrow> int option)" where
  "buildComponents adjacency = fst (foldl (componentsStep adjacency) (Map.empty, 0) adjacency)"

subsection \<open>Grouping and choosing the winding\<close>

definition faceComponent :: "(int \<Rightarrow> int option) \<Rightarrow> Face \<Rightarrow> int" where
  \<comment> \<open>\<open>componentByNode.get(face.nodeIds[0]) ?? -1\<close>\<close>
  "faceComponent componentByNode face =
     (case fnodeIds face of
        [] \<Rightarrow> -1
      | n # _ \<Rightarrow> (case componentByNode n of Some c \<Rightarrow> c | None \<Rightarrow> -1))"

definition groupFaces :: "(int \<Rightarrow> int option) \<Rightarrow> Face list \<Rightarrow> (int \<times> Face list) list" where
  "groupFaces componentByNode faces =
     foldl (\<lambda>facesByComponent face.
              let c = faceComponent componentByNode face
              in pushTo (ensureKey facesByComponent c) c face)
           [] faces"

definition absSum :: "Face list \<Rightarrow> real" where
  \<comment> \<open>\<open>group.reduce((sum, face) => sum + Math.abs(face.area), 0)\<close>\<close>
  "absSum fs = foldl (\<lambda>s face. s + \<bar>area face\<bar>) 0 fs"

definition keepGroup :: "Face list \<Rightarrow> Face list" where
  \<comment> \<open>the body of \<open>facesByComponent.forEach((group) => ...)\<close>: what it pushes to
      \<open>filtered\<close> (\<open>grp\<close> is the source's \<open>group\<close>)\<close>
  "keepGroup grp =
     (if length grp \<le> 1 then grp
      else let positive = filter (\<lambda>face. area face > 0) grp;
               negative = filter (\<lambda>face. area face < 0) grp
           in if positive = [] \<or> negative = [] then grp
              else if length negative > length positive then negative
              else if length negative = length positive then
                (let positiveAbs = absSum positive;
                     negativeAbs = absSum negative
                 in if negativeAbs < positiveAbs then negative else positive)
              else positive)"

definition toRooms :: "Face list \<Rightarrow> Room list" where
  \<comment> \<open>\<open>filtered.map((face, index) => ({ id: index + 1, ... }))\<close>\<close>
  "toRooms filtered =
     map (\<lambda>(index, face). \<lparr>rid = index + 1, nodeIds = fnodeIds face, points = fpoints face\<rparr>)
         (enumerate 0 filtered)"

definition traceFaces :: "NodePoint list \<Rightarrow> Wall list \<Rightarrow> error + Face list" where
  \<comment> \<open>the first half of \<open>buildRoomsFromWalls\<close>, up to the list \<open>faces\<close>\<close>
  "traceFaces nodes walls =
     (let nodeMap = nodeMapOf nodes;
          adjacency = buildAdjacency walls;
          angleMap = buildAngleMap nodeMap adjacency
      in bind_e (traceWalls nodeMap angleMap ({}, []) walls) (\<lambda>(visited, faces). Inr faces))"

definition filterFaces :: "Wall list \<Rightarrow> Face list \<Rightarrow> Face list" where
  \<comment> \<open>the second half: the list \<open>filtered\<close> computed from \<open>faces\<close>\<close>
  "filterFaces walls faces =
     (let adjacency = buildAdjacency walls;
          componentByNode = buildComponents adjacency;
          facesByComponent = groupFaces componentByNode faces
      in concat (map (\<lambda>(c, grp). keepGroup grp) facesByComponent))"

definition buildRoomsFromWalls :: "NodePoint list \<Rightarrow> Wall list \<Rightarrow> error + Room list" where
  "buildRoomsFromWalls nodes walls =
     bind_e (traceFaces nodes walls) (\<lambda>faces.
       if faces = [] then Inr []
       else Inr (toRooms (filterFaces walls faces)))"

section \<open>Geometry: basic facts\<close>

lemma bind_e_Inr [simp]: "bind_e (Inr v) f = f v"
  by (simp add: bind_e_def)

lemma bind_e_Inl [simp]: "bind_e (Inl e) f = Inl e"
  by (simp add: bind_e_def)

lemma elem_in_range [simp]: "i < length xs \<Longrightarrow> elem xs i = Inr (xs ! i)"
  by (simp add: elem_def)

lemma elem_mod: "xs \<noteq> [] \<Longrightarrow> elem xs (k mod length xs) = Inr (xs ! (k mod length xs))"
  by (simp add: elem_def)

lemma elem_Suc_mod [simp]:
  "i < length xs \<Longrightarrow> elem xs (Suc i mod length xs) = Inr (xs ! (Suc i mod length xs))"
  by (rule elem_mod) auto

text \<open>The pure value of the shoelace sum.\<close>

definition crossTerm :: "Vec2 list \<Rightarrow> nat \<Rightarrow> real" where
  "crossTerm pts i =
     px (pts ! i) * py (pts ! ((i + 1) mod length pts))
     - px (pts ! ((i + 1) mod length pts)) * py (pts ! i)"

lemma crossSum_value:
  "\<forall>i \<in> set is. i < length pts \<Longrightarrow>
   crossSum pts is s = Inr (s + sum_list (map (crossTerm pts) is))"
  by (induction "is" arbitrary: s) (simp_all add: crossTerm_def algebra_simps)

definition shoelace :: "Vec2 list \<Rightarrow> real" where
  "shoelace pts = sum_list (map (crossTerm pts) [0..<length pts])"

lemma polygonAreaSigned_value: "polygonAreaSigned pts = Inr (shoelace pts / 2)"
  by (simp add: polygonAreaSigned_def crossSum_value shoelace_def)

lemma polygonArea_value: "polygonArea pts = Inr \<bar>shoelace pts / 2\<bar>"
  by (simp add: polygonArea_def crossSum_value shoelace_def)

lemma getEdge_ok:
  "index < length pts \<Longrightarrow> \<exists>e. getEdge pts offsets sign index = Inr e"
  by (simp add: getEdge_def Let_def)

lemma offsetCorner_ok:
  assumes "i < length pts"
  shows "\<exists>c. offsetCorner pts offsets sign i = Inr c"
proof -
  have "(i + length pts - 1) mod length pts < length pts"
    using assms by (intro mod_less_divisor) auto
  then obtain e1 where e1: "getEdge pts offsets sign ((i + length pts - 1) mod length pts) = Inr e1"
    using getEdge_ok by blast
  obtain e2 where e2: "getEdge pts offsets sign i = Inr e2"
    using getEdge_ok [OF assms] by blast
  show ?thesis
    unfolding offsetCorner_def e1 e2 by (simp add: Let_def split: option.split)
qed

lemma offsetLoop_ok:
  "\<forall>i \<in> set is. i < length pts \<Longrightarrow>
   \<exists>r. offsetLoop pts offsets sign is result = Inr r \<and> length r = length result + length is"
proof (induction "is" arbitrary: result)
  case Nil
  then show ?case by simp
next
  case (Cons i "is")
  then obtain c where c: "offsetCorner pts offsets sign i = Inr c"
    using offsetCorner_ok [of i pts offsets sign] by auto
  from Cons.IH [of "result @ [c]"] Cons.prems
  show ?case by (auto simp: c)
qed

lemma offsetPolygon_null:
  "length pts < 3 \<or> length offsets \<noteq> length pts \<Longrightarrow> offsetPolygon pts offsets = Inr None"
  by (simp add: offsetPolygon_def)

lemma offsetPolygon_some:
  assumes "\<not> (length pts < 3 \<or> length offsets \<noteq> length pts)"
  shows "\<exists>r. offsetPolygon pts offsets = Inr (Some r) \<and> length r = length pts"
proof -
  define sign :: real where "sign = (if 0 \<le> shoelace pts then 1 else -1)"
  obtain r where r: "offsetLoop pts offsets sign [0..<length pts] [] = Inr r"
    and len: "length r = length pts"
    using offsetLoop_ok [of "[0..<length pts]" pts offsets sign "[]"] by auto
  have "offsetPolygon pts offsets = Inr (Some r)"
    using assms r unfolding offsetPolygon_def polygonAreaSigned_value sign_def
    by (simp add: Let_def split: if_splits)
  with len show ?thesis by simp
qed

section \<open>Claim C3\<close>

text \<open>
  C3. \<open>offsetPolygon(points, offsets)\<close> returns null when \<open>points\<close> has fewer than 3
  entries or \<open>offsets.length\<close> differs from \<open>points.length\<close>; for every other input it
  returns (without failing) a non-null result containing exactly \<open>points.length\<close>
  vertices.
\<close>

theorem offsetPolygon_null_or_same_length:
  "(if length pts < 3 \<or> length offsets \<noteq> length pts
    then offsetPolygon pts offsets = Inr None
    else \<exists>r. offsetPolygon pts offsets = Inr (Some r) \<and> length r = length pts)"
  using offsetPolygon_null [of pts offsets] offsetPolygon_some [of pts offsets]
  by (simp split: if_splits)

theorem offsetPolygon_null_or_same_length_witness:
  "offsetPolygon [\<lparr>px = 0, py = 0\<rparr>, \<lparr>px = 1, py = 0\<rparr>] [0, 0] = Inr None
   \<and> (\<exists>r. offsetPolygon [\<lparr>px = 0, py = 0\<rparr>, \<lparr>px = 4, py = 0\<rparr>, \<lparr>px = 0, py = 3\<rparr>] [0, 0, 0]
            = Inr (Some r) \<and> length r = 3)"
  using offsetPolygon_null_or_same_length [of "[\<lparr>px = 0, py = 0\<rparr>, \<lparr>px = 1, py = 0\<rparr>]" "[0, 0]"]
        offsetPolygon_null_or_same_length
          [of "[\<lparr>px = 0, py = 0\<rparr>, \<lparr>px = 4, py = 0\<rparr>, \<lparr>px = 0, py = 3\<rparr>]" "[0, 0, 0]"]
  by (simp add: eval_nat_numeral)

section \<open>Claim C8\<close>

text \<open>The pure value of the perimeter loop.\<close>

definition edgeLength :: "Vec2 list \<Rightarrow> nat \<Rightarrow> real" where
  "edgeLength pts i = distance (pts ! i) (pts ! ((i + 1) mod length pts))"

lemma perimeterLoop_value:
  "\<forall>i \<in> set is. i < length pts \<Longrightarrow>
   perimeterLoop pts is s = Inr (s + sum_list (map (edgeLength pts) is))"
  by (induction "is" arbitrary: s) (simp_all add: edgeLength_def algebra_simps)

lemma getRoomInnerPolygon_ok:
  "\<exists>v. getRoomInnerPolygon room m d scale = Inr v"
proof (cases "length (points room) < 3
              \<or> length (getRoomOffsets room m d scale) \<noteq> length (points room)")
  case True
  then show ?thesis
    by (simp add: getRoomInnerPolygon_def offsetPolygon_null)
next
  case False
  from offsetPolygon_some [OF this]
  show ?thesis by (auto simp: getRoomInnerPolygon_def)
qed

lemma getRoomInnerPolygon_fallback:
  assumes "offsetPolygon (points room) (getRoomOffsets room m d scale) = Inr None
           \<or> (\<exists>ps. offsetPolygon (points room) (getRoomOffsets room m d scale) = Inr (Some ps)
                     \<and> length ps < 3)"
  shows "getRoomInnerPolygon room m d scale = Inr None"
  using assms by (auto simp: getRoomInnerPolygon_def)

lemma perimeter_of_ok:
  "\<exists>v. (if length pts = 0 then Inr 0
         else bind_e (perimeterLoop pts [0..<length pts] 0) (\<lambda>s. Inr (s / scale))) = Inr v"
  by (simp add: perimeterLoop_value)

lemma getRoomInnerArea_ok: "\<exists>v. getRoomInnerArea room m d scale = Inr v"
proof -
  obtain v where v: "getRoomInnerPolygon room m d scale = Inr v"
    using getRoomInnerPolygon_ok by blast
  show ?thesis
    by (cases v) (simp_all add: getRoomInnerArea_def v getRoomArea_def polygonArea_value)
qed

lemma getRoomPerimeter_ok: "\<exists>v. getRoomPerimeter room m d scale u = Inr v"
proof -
  obtain v where v: "getRoomInnerPolygon room m d scale = Inr v"
    using getRoomInnerPolygon_ok by blast
  show ?thesis
    unfolding getRoomPerimeter_def v
    by (cases u) (simp_all add: perimeterLoop_value)
qed

text \<open>
  C8. Whenever \<open>offsetPolygon\<close>, applied to the room's points and its per-edge
  half-thickness offsets, returns null or a polygon with fewer than 3 points,
  \<open>getRoomInnerArea\<close> returns the outer polygon's area (\<open>polygonArea(room.points)\<close>
  divided by the square of the scale) and \<open>getRoomPerimeter\<close> with
  \<open>useInnerPolygon = true\<close> returns the outer polygon's perimeter, the value it returns
  with \<open>useInnerPolygon = false\<close>. Neither function ever fails, whatever the input.
\<close>

theorem metrics_fall_back_to_outer_polygon:
  "(\<exists>v. getRoomInnerArea room m d scale = Inr v)
   \<and> (\<exists>v. getRoomPerimeter room m d scale u = Inr v)
   \<and> (offsetPolygon (points room) (getRoomOffsets room m d scale) = Inr None
        \<or> (\<exists>ps. offsetPolygon (points room) (getRoomOffsets room m d scale) = Inr (Some ps)
                  \<and> length ps < 3)
      \<longrightarrow> (\<exists>A. polygonArea (points room) = Inr A
                 \<and> getRoomInnerArea room m d scale = Inr (A / (scale * scale)))
          \<and> (\<exists>P. getRoomPerimeter room m d scale False = Inr P
                 \<and> getRoomPerimeter room m d scale True = Inr P
                 \<and> P = sum_list (map (edgeLength (points room)) [0..<length (points room)])
                        / scale))"
proof (intro conjI impI)
  show "\<exists>v. getRoomInnerArea room m d scale = Inr v"
    by (rule getRoomInnerArea_ok)
  show "\<exists>v. getRoomPerimeter room m d scale u = Inr v"
    by (rule getRoomPerimeter_ok)
next
  assume "offsetPolygon (points room) (getRoomOffsets room m d scale) = Inr None
          \<or> (\<exists>ps. offsetPolygon (points room) (getRoomOffsets room m d scale) = Inr (Some ps)
                    \<and> length ps < 3)"
  then have none: "getRoomInnerPolygon room m d scale = Inr None"
    by (rule getRoomInnerPolygon_fallback)
  show "\<exists>A. polygonArea (points room) = Inr A
            \<and> getRoomInnerArea room m d scale = Inr (A / (scale * scale))"
    by (rule exI [of _ "\<bar>shoelace (points room) / 2\<bar>"])
       (simp add: getRoomInnerArea_def none getRoomArea_def polygonArea_value)
  show "\<exists>P. getRoomPerimeter room m d scale False = Inr P
            \<and> getRoomPerimeter room m d scale True = Inr P
            \<and> P = sum_list (map (edgeLength (points room)) [0..<length (points room)]) / scale"
    by (simp add: getRoomPerimeter_def none perimeterLoop_value)
qed

theorem metrics_fall_back_to_outer_polygon_witness:
  "offsetPolygon (points \<lparr>rid = 1, nodeIds = [1, 2, 3],
                          points = [\<lparr>px = 0, py = 0\<rparr>, \<lparr>px = 3, py = 0\<rparr>]\<rparr>)
     (getRoomOffsets \<lparr>rid = 1, nodeIds = [1, 2, 3],
                      points = [\<lparr>px = 0, py = 0\<rparr>, \<lparr>px = 3, py = 0\<rparr>]\<rparr> Map.empty (1/5) 50)
     = Inr None
   \<and> (\<exists>A. polygonArea [\<lparr>px = 0, py = 0\<rparr>, \<lparr>px = 3, py = 0\<rparr>] = Inr A
          \<and> getRoomInnerArea \<lparr>rid = 1, nodeIds = [1, 2, 3],
                               points = [\<lparr>px = 0, py = 0\<rparr>, \<lparr>px = 3, py = 0\<rparr>]\<rparr>
                Map.empty (1/5) 50 = Inr (A / (50 * 50)))
   \<and> (\<exists>P. getRoomPerimeter \<lparr>rid = 1, nodeIds = [1, 2, 3],
                               points = [\<lparr>px = 0, py = 0\<rparr>, \<lparr>px = 3, py = 0\<rparr>]\<rparr>
                Map.empty (1/5) 50 True = Inr P)"
proof -
  let ?room = "\<lparr>rid = 1, nodeIds = [1, 2, 3],
                 points = [\<lparr>px = 0, py = 0\<rparr>, \<lparr>px = 3, py = 0\<rparr>]\<rparr>"
  have null: "offsetPolygon (points ?room) (getRoomOffsets ?room Map.empty (1/5) 50) = Inr None"
    by (simp add: offsetPolygon_def)
  from metrics_fall_back_to_outer_polygon [of ?room Map.empty "1/5" 50 True] null
  show ?thesis by auto
qed

section \<open>Room inference: the traced cycles\<close>

subsection \<open>Adjacency\<close>

definition linked :: "Wall list \<Rightarrow> int \<Rightarrow> int \<Rightarrow> bool" where
  "linked walls a b = (\<exists>w \<in> set walls. (wa w = a \<and> wb w = b) \<or> (wa w = b \<and> wb w = a))"

lemma linked_mono: "linked ws a b \<Longrightarrow> linked (ws @ [w]) a b"
  by (auto simp: linked_def)

lemma set_ensureKey: "set (ensureKey m k) \<subseteq> set m \<union> {(k, [])}"
  by (auto simp: ensureKey_def)

lemma in_pushTo:
  "(u, ns) \<in> set (pushTo m k v) \<Longrightarrow>
   (u, ns) \<in> set m \<or> (u = k \<and> (\<exists>ns'. (k, ns') \<in> set m \<and> ns = ns' @ [v]))"
  by (auto simp: pushTo_def split: if_splits)

definition adjacencyWithin :: "Wall list \<Rightarrow> (int \<times> int list) list \<Rightarrow> bool" where
  "adjacencyWithin walls adjacency =
     (\<forall>(u, ns) \<in> set adjacency. \<forall>v \<in> set ns. linked walls u v)"

lemma addWall_within:
  assumes "adjacencyWithin ws adjacency"
  shows "adjacencyWithin (ws @ [wall]) (addWall adjacency wall)"
proof -
  have base: "adjacencyWithin (ws @ [wall]) adjacency"
    using assms by (fastforce simp: adjacencyWithin_def intro: linked_mono)
  have l1: "linked (ws @ [wall]) (wa wall) (wb wall)"
    and l2: "linked (ws @ [wall]) (wb wall) (wa wall)"
    by (auto simp: linked_def)
  have ens: "adjacencyWithin W (ensureKey m k)" if "adjacencyWithin W m" for W m k
    using that set_ensureKey [of m k] by (fastforce simp: adjacencyWithin_def)
  have push: "adjacencyWithin W (pushTo m k v)"
    if "adjacencyWithin W m" "linked W k v" for W m k v
    using that by (fastforce simp: adjacencyWithin_def dest!: in_pushTo)
  show ?thesis
    unfolding addWall_def Let_def
    by (intro push ens base l1 l2)
qed

lemma foldl_addWall_within:
  "adjacencyWithin ws adjacency \<Longrightarrow> adjacencyWithin (ws @ walls) (foldl addWall adjacency walls)"
proof (induction walls arbitrary: ws adjacency)
  case Nil
  then show ?case by simp
next
  case (Cons w walls)
  from Cons.IH [OF addWall_within [OF Cons.prems, of w]]
  show ?case by simp
qed

lemma buildAdjacency_within: "adjacencyWithin walls (buildAdjacency walls)"
  using foldl_addWall_within [of "[]" "[]" walls]
  by (simp add: buildAdjacency_def adjacencyWithin_def)

subsection \<open>dedupe and sort\<close>

lemma dedupe_snoc:
  "dedupe (vs @ [v]) = (if v \<in> set (dedupe vs) then dedupe vs else dedupe vs @ [v])"
  by (simp add: dedupe_def)

lemma set_dedupe [simp]: "set (dedupe vs) = set vs"
  by (induction vs rule: rev_induct) (auto simp: dedupe_snoc, simp add: dedupe_def)

lemma distinct_dedupe [simp]: "distinct (dedupe vs)"
  by (induction vs rule: rev_induct) (auto simp: dedupe_snoc, simp add: dedupe_def)

lemma set_insertSorted [simp]: "set (insertSorted cmp v ws) = insert v (set ws)"
  by (induction ws) auto

lemma distinct_insertSorted [simp]:
  "distinct (insertSorted cmp v ws) = (v \<notin> set ws \<and> distinct ws)"
  by (induction ws) auto

lemma sortBy_snoc: "sortBy cmp (vs @ [v]) = insertSorted cmp v (sortBy cmp vs)"
  by (simp add: sortBy_def)

lemma set_sortBy [simp]: "set (sortBy cmp vs) = set vs"
  by (induction vs rule: rev_induct) (simp_all add: sortBy_snoc, simp add: sortBy_def)

lemma distinct_sortBy [simp]: "distinct (sortBy cmp vs) = distinct vs"
  by (induction vs rule: rev_induct) (auto simp: sortBy_snoc, simp add: sortBy_def)

subsection \<open>The rotation system\<close>

definition rotationOK ::
    "(int \<Rightarrow> NodePoint option) \<Rightarrow> (int \<times> int list) list \<Rightarrow> (int \<Rightarrow> int list option) \<Rightarrow> bool" where
  "rotationOK nodeMap adjacency angleMap =
     (\<forall>u list. angleMap u = Some list \<longrightarrow>
        nodeMap u \<noteq> None \<and> distinct list \<and> (\<exists>ns. (u, ns) \<in> set adjacency \<and> set list = set ns))"

lemma foldl_angleMap_ok:
  "rotationOK nodeMap (pre @ adjacency) am \<Longrightarrow>
   rotationOK nodeMap (pre @ adjacency)
     (foldl (\<lambda>angleMap (nodeId, neighbors).
              case nodeMap nodeId of
                None \<Rightarrow> angleMap
              | Some node \<Rightarrow>
                  angleMap(nodeId \<mapsto> sortBy (compareAngle nodeMap node) (dedupe neighbors)))
           am adjacency)"
proof (induction adjacency arbitrary: pre am)
  case Nil
  then show ?case by simp
next
  case (Cons e adjacency)
  obtain u ns where e: "e = (u, ns)" by (cases e)
  let ?am' = "case nodeMap u of None \<Rightarrow> am
              | Some node \<Rightarrow> am(u \<mapsto> sortBy (compareAngle nodeMap node) (dedupe ns))"
  have "rotationOK nodeMap ((pre @ [e]) @ adjacency) ?am'"
    using Cons.prems unfolding rotationOK_def e
    by (fastforce split: option.splits if_splits)
  from Cons.IH [OF this] show ?case by (simp add: e)
qed

lemma buildAngleMap_ok: "rotationOK nodeMap adjacency (buildAngleMap nodeMap adjacency)"
  using foldl_angleMap_ok [of nodeMap "[]" adjacency Map.empty]
  by (simp add: buildAngleMap_def rotationOK_def)

lemma indexOf_Some: "indexOf list v = Some i \<Longrightarrow> i < length list \<and> list ! i = v"
  by (induction list arbitrary: i) (auto split: if_splits)

lemma prevIndex:
  fixes i n :: nat
  assumes "i < n"
  shows "(i + n - 1) mod n = (if i = 0 then n - 1 else i - 1)"
proof (cases "i = 0")
  case True
  with assms show ?thesis by simp
next
  case False
  then have "i + n - 1 = (i - 1) + n" by simp
  then have "(i + n - 1) mod n = (i - 1) mod n" by (metis mod_add_self2)
  with False assms show ?thesis by simp
qed

lemma nextNeighbor_SomeD:
  assumes "nextNeighbor angleMap v u = Some w"
  obtains list i where "angleMap v = Some list" "2 \<le> length list" "i < length list"
    "list ! i = u" "w = list ! (if i = 0 then length list - 1 else i - 1)"
proof -
  from assms obtain list where l: "angleMap v = Some list"
    by (auto simp: nextNeighbor_def split: option.splits)
  from assms l have len: "2 \<le> length list"
    by (auto simp: nextNeighbor_def split: if_splits)
  from assms l len obtain i where i: "indexOf list u = Some i"
    by (auto simp: nextNeighbor_def split: option.splits)
  from indexOf_Some [OF i] have il: "i < length list" "list ! i = u" by auto
  from assms l len i have "w = list ! ((i + length list - 1) mod length list)"
    by (auto simp: nextNeighbor_def Let_def)
  with prevIndex [OF il(1)] have "w = list ! (if i = 0 then length list - 1 else i - 1)"
    by simp
  with l len il that show thesis by blast
qed

lemma nextNeighbor_in_rotation:
  assumes "nextNeighbor angleMap v u = Some w"
  shows "\<exists>list. angleMap v = Some list \<and> w \<in> set list"
proof -
  from assms obtain list i where *: "angleMap v = Some list" "2 \<le> length list" "i < length list"
    "w = list ! (if i = 0 then length list - 1 else i - 1)"
    by (rule nextNeighbor_SomeD)
  then have "w \<in> set list" by (auto intro!: nth_mem)
  with * show ?thesis by blast
qed

lemma nextNeighbor_linked:
  assumes "rotationOK nodeMap adjacency angleMap" "adjacencyWithin walls adjacency"
    and "nextNeighbor angleMap v u = Some w"
  shows "linked walls v w" and "nodeMap v \<noteq> None"
proof -
  from nextNeighbor_in_rotation [OF assms(3)]
  obtain list where l: "angleMap v = Some list" "w \<in> set list" by blast
  from assms(1) l obtain ns where ns: "nodeMap v \<noteq> None" "(v, ns) \<in> set adjacency" "set list = set ns"
    unfolding rotationOK_def by blast
  with assms(2) l show "linked walls v w"
    by (fastforce simp: adjacencyWithin_def)
  from ns show "nodeMap v \<noteq> None" by simp
qed

lemma nextNeighbor_inj:
  assumes ok: "rotationOK nodeMap adjacency angleMap"
    and 1: "nextNeighbor angleMap v u = Some w"
    and 2: "nextNeighbor angleMap v u' = Some w"
  shows "u = u'"
proof -
  from 1 obtain list i where a: "angleMap v = Some list" "2 \<le> length list" "i < length list"
    "list ! i = u" "w = list ! (if i = 0 then length list - 1 else i - 1)"
    by (rule nextNeighbor_SomeD)
  from 2 obtain list' j where b: "angleMap v = Some list'" "j < length list'"
    "list' ! j = u'" "w = list' ! (if j = 0 then length list' - 1 else j - 1)"
    by (rule nextNeighbor_SomeD)
  from a b have same: "list' = list" by simp
  from ok a have d: "distinct list" unfolding rotationOK_def by blast
  let ?n = "length list"
  have "(if i = 0 then ?n - 1 else i - 1) = (if j = 0 then ?n - 1 else j - 1)"
    using a(2,3,5) b(2,4) d unfolding same
    by (intro iffD1 [OF nth_eq_iff_index_eq [OF d]]) (auto split: if_splits)
  with a(2,3) b(2) same have "i = j" by (auto split: if_splits)
  with a b same show ?thesis by simp
qed

lemma nextNeighbor_not_back:
  assumes ok: "rotationOK nodeMap adjacency angleMap"
    and 1: "nextNeighbor angleMap v u = Some w"
  shows "w \<noteq> u"
proof -
  from 1 obtain list i where a: "angleMap v = Some list" "2 \<le> length list" "i < length list"
    "list ! i = u" "w = list ! (if i = 0 then length list - 1 else i - 1)"
    by (rule nextNeighbor_SomeD)
  from ok a have d: "distinct list" unfolding rotationOK_def by blast
  have "(if i = 0 then length list - 1 else i - 1) \<noteq> i" using a(2,3) by auto
  moreover have "(if i = 0 then length list - 1 else i - 1) < length list" using a(2,3) by auto
  ultimately show ?thesis
    using a(3,4,5) nth_eq_iff_index_eq [OF d] by metis
qed

definition chain :: "(int \<Rightarrow> int list option) \<Rightarrow> int list \<Rightarrow> bool" where
  "chain angleMap xs =
     (\<forall>i. i + 2 < length xs \<longrightarrow>
          nextNeighbor angleMap (xs ! (i + 1)) (xs ! i) = Some (xs ! (i + 2)))"

definition noReturn :: "int \<Rightarrow> int \<Rightarrow> int list \<Rightarrow> bool" where
  "noReturn startU startV xs =
     (\<forall>k. 1 \<le> k \<and> k + 1 < length xs \<longrightarrow> (xs ! k, xs ! (k + 1)) \<noteq> (startU, startV))"

lemma chain_snoc:
  assumes "chain angleMap (xs @ [a, b])" "nextNeighbor angleMap b a = Some c"
  shows "chain angleMap (xs @ [a, b, c])"
  unfolding chain_def
proof (intro allI impI)
  fix i assume i: "i + 2 < length (xs @ [a, b, c])"
  show "nextNeighbor angleMap ((xs @ [a, b, c]) ! (i + 1)) ((xs @ [a, b, c]) ! i)
        = Some ((xs @ [a, b, c]) ! (i + 2))"
  proof (cases "i = length xs")
    case True
    then show ?thesis using assms(2) by (simp add: nth_append)
  next
    case False
    with i have lt: "i + 2 < length (xs @ [a, b])" by simp
    have eq: "(xs @ [a, b, c]) ! j = (xs @ [a, b]) ! j" if "j < length xs + 2" for j
      using that by (auto simp: nth_append nth_Cons split: nat.splits)
    from assms(1) lt have "nextNeighbor angleMap ((xs @ [a, b]) ! (i + 1)) ((xs @ [a, b]) ! i)
        = Some ((xs @ [a, b]) ! (i + 2))"
      unfolding chain_def by blast
    with lt show ?thesis by (simp add: eq)
  qed
qed

lemma noReturn_snoc:
  assumes "noReturn su sv (xs @ [a])" "(a, b) \<noteq> (su, sv)"
  shows "noReturn su sv (xs @ [a, b])"
  unfolding noReturn_def
proof (intro allI impI)
  fix k assume k: "1 \<le> k \<and> k + 1 < length (xs @ [a, b])"
  show "((xs @ [a, b]) ! k, (xs @ [a, b]) ! (k + 1)) \<noteq> (su, sv)"
  proof (cases "k = length xs")
    case True
    then show ?thesis using assms(2) by (simp add: nth_append)
  next
    case False
    with k have lt: "k + 1 < length (xs @ [a])" by simp
    have eq: "(xs @ [a, b]) ! j = (xs @ [a]) ! j" if "j < length xs + 1" for j
      using that by (auto simp: nth_append nth_Cons split: nat.splits)
    from assms(1) k lt have "((xs @ [a]) ! k, (xs @ [a]) ! (k + 1)) \<noteq> (su, sv)"
      unfolding noReturn_def by blast
    with lt show ?thesis by (simp add: eq)
  qed
qed

lemma traceLoop_closed:
  "traceLoop angleMap startU startV safety currentU currentV path traversed = (True, path', traversed')
   \<Longrightarrow> path \<noteq> [] \<Longrightarrow> last path = currentU
   \<Longrightarrow> chain angleMap (path @ [currentV])
   \<Longrightarrow> \<exists>rest. path @ [currentV] = startU # startV # rest
   \<Longrightarrow> noReturn startU startV (path @ [currentV])
   \<Longrightarrow> \<exists>cyc. path' = cyc @ [startU] \<and> chain angleMap (cyc @ [startU, startV])
          \<and> (\<exists>rest. cyc @ [startU] = startU # startV # rest)
          \<and> noReturn startU startV (cyc @ [startU])"
proof (induction angleMap startU startV safety currentU currentV path traversed
       rule: traceLoop.induct)
  case (1 angleMap startU startV safety currentU currentV path traversed)
  note run = "1.prems"(1)
  from run have lt: "safety < 500"
    by (subst (asm) traceLoop.simps) (auto split: if_splits)
  from "1.prems"(2,3) have path: "path = butlast path @ [currentU]"
    by (metis append_butlast_last_id)
  show ?case
  proof (cases "nextNeighbor angleMap currentV currentU")
    case None
    with run lt show ?thesis by (subst (asm) traceLoop.simps) simp
  next
    case (Some nxt)
    have ch: "chain angleMap (path @ [currentV, nxt])"
      using chain_snoc [of angleMap "butlast path" currentU currentV nxt] "1.prems"(4) Some path
      by (metis append.assoc append_Cons append_Nil)
    show ?thesis
    proof (cases "currentV = startU \<and> nxt = startV")
      case True
      with run lt Some have "path' = path @ [startU]"
        by (subst (asm) traceLoop.simps) simp
      moreover have "chain angleMap (path @ [startU, startV])" using ch True by simp
      ultimately show ?thesis using "1.prems"(5,6) True by auto
    next
      case False
      with run lt Some
      have run': "traceLoop angleMap startU startV (safety + 1) currentV nxt (path @ [currentV])
                    (traversed @ [(currentU, currentV)]) = (True, path', traversed')"
        by (subst (asm) traceLoop.simps) simp
      have nr: "noReturn startU startV ((path @ [currentV]) @ [nxt])"
        using noReturn_snoc [OF "1.prems"(6), of nxt] False by simp
      from "1.prems"(5) obtain rest where "path @ [currentV] = startU # startV # rest" by blast
      then have "(path @ [currentV]) @ [nxt] = startU # startV # (rest @ [nxt])" by simp
      then have pre: "\<exists>rest. (path @ [currentV]) @ [nxt] = startU # startV # rest" by blast
      show ?thesis
        using "1.IH" [OF lt refl refl Some False run'] ch nr pre by simp
    qed
  qed
qed

definition rotationCycle :: "(int \<Rightarrow> int list option) \<Rightarrow> int list \<Rightarrow> bool" where
  "rotationCycle angleMap cyc =
     (3 \<le> length cyc
      \<and> (\<forall>i < length cyc.
            nextNeighbor angleMap (cyc ! ((i + 1) mod length cyc)) (cyc ! i)
              = Some (cyc ! ((i + 2) mod length cyc)))
      \<and> (\<forall>k. 1 \<le> k \<and> k < length cyc \<longrightarrow>
              (cyc ! k, cyc ! ((k + 1) mod length cyc)) \<noteq> (cyc ! 0, cyc ! 1)))"

lemma wrapped_nth:
  assumes "2 \<le> length cyc" "k < length cyc + 2"
  shows "(cyc @ [cyc ! 0, cyc ! 1]) ! k = cyc ! (k mod length cyc)"
proof -
  consider "k < length cyc" | "k = length cyc" | "k = length cyc + 1"
    using assms(2) by linarith
  then show ?thesis
  proof cases
    case 1
    then show ?thesis by (simp add: nth_append)
  next
    case 2
    then show ?thesis by (simp add: nth_append)
  next
    case 3
    from assms(1) have "Suc (length cyc) mod length cyc = 1" by (simp add: mod_Suc)
    with 3 show ?thesis by (simp add: nth_append)
  qed
qed

lemma closed_trace_rotationCycle:
  assumes run: "traceLoop angleMap startU startV 0 startU startV [startU] [] = (True, path, traversed)"
    and len: "4 \<le> length path"
  shows "rotationCycle angleMap (butlast path)"
proof -
  have "chain angleMap ([startU] @ [startV])" by (simp add: chain_def)
  moreover have "noReturn startU startV ([startU] @ [startV])" by (simp add: noReturn_def)
  ultimately obtain cyc where cyc: "path = cyc @ [startU]"
      and ch: "chain angleMap (cyc @ [startU, startV])"
      and pre: "\<exists>rest. cyc @ [startU] = startU # startV # rest"
      and nr: "noReturn startU startV (cyc @ [startU])"
    using traceLoop_closed [OF run] by auto
  from cyc len have n: "3 \<le> length cyc" by simp
  from pre n have c0: "cyc ! 0 = startU" and c1: "cyc ! 1 = startV"
    by (cases cyc; cases "tl cyc"; auto)+
  let ?n = "length cyc"
  let ?x = "cyc @ [cyc ! 0, cyc ! 1]"
  have x: "?x ! k = cyc ! (k mod ?n)" if "k < ?n + 2" for k
    using wrapped_nth [of cyc k] n that by simp
  have A: "nextNeighbor angleMap (cyc ! ((i + 1) mod ?n)) (cyc ! i) = Some (cyc ! ((i + 2) mod ?n))"
    if "i < ?n" for i
  proof -
    from ch that have "nextNeighbor angleMap (?x ! (i + 1)) (?x ! i) = Some (?x ! (i + 2))"
      unfolding chain_def c0 c1 by simp
    moreover have "?x ! i = cyc ! i" using x [of i] that by simp
    moreover have "?x ! (i + 1) = cyc ! ((i + 1) mod ?n)" using x [of "i + 1"] that by simp
    moreover have "?x ! (i + 2) = cyc ! ((i + 2) mod ?n)" using x [of "i + 2"] that by simp
    ultimately show ?thesis by (simp only:)
  qed
  have B: "(cyc ! k, cyc ! ((k + 1) mod ?n)) \<noteq> (cyc ! 0, cyc ! 1)" if "1 \<le> k" "k < ?n" for k
  proof -
    from nr that have "((cyc @ [startU]) ! k, (cyc @ [startU]) ! (k + 1)) \<noteq> (startU, startV)"
      unfolding noReturn_def by simp
    moreover have "(cyc @ [startU]) ! k = cyc ! k" using that by (simp add: nth_append)
    moreover have "(cyc @ [startU]) ! (k + 1) = cyc ! ((k + 1) mod ?n)"
      using that c0 by (cases "k + 1 = ?n") (auto simp: nth_append)
    ultimately show ?thesis using c0 c1 by simp
  qed
  from n A B have "rotationCycle angleMap cyc" unfolding rotationCycle_def by blast
  with cyc show ?thesis by simp
qed

text \<open>Consequences for a cycle of the rotation system.\<close>

lemma pred_mod:
  fixes i n :: nat
  assumes "i < n"
  shows "((i + n - 1) mod n + 1) mod n = i" and "((i + n - 1) mod n + 2) mod n = (i + 1) mod n"
    and "(i + n - 1) mod n < n"
proof -
  have p: "(i + n - 1) mod n = (if i = 0 then n - 1 else i - 1)"
    using prevIndex [OF assms] .
  show "((i + n - 1) mod n + 1) mod n = i" unfolding p using assms by auto
  show "((i + n - 1) mod n + 2) mod n = (i + 1) mod n"
  proof (cases "i = 0")
    case True
    with assms have "n - 1 + 2 = 1 + n" by simp
    then have "(n - 1 + 2) mod n = 1 mod n" by (metis mod_add_self2)
    with True show ?thesis unfolding p by simp
  next
    case False
    then have "i - 1 + 2 = i + 1" by simp
    with False show ?thesis unfolding p by simp
  qed
  show "(i + n - 1) mod n < n" unfolding p using assms by auto
qed

lemma rotationCycle_step:
  assumes "rotationCycle angleMap cyc" "i < length cyc"
  shows "\<exists>u. nextNeighbor angleMap (cyc ! i) u = Some (cyc ! ((i + 1) mod length cyc))"
proof -
  let ?n = "length cyc" and ?p = "(i + length cyc - 1) mod length cyc"
  from assms(1) pred_mod(3) [OF assms(2)]
  have "nextNeighbor angleMap (cyc ! ((?p + 1) mod ?n)) (cyc ! ?p) = Some (cyc ! ((?p + 2) mod ?n))"
    unfolding rotationCycle_def by blast
  then show ?thesis using pred_mod(1,2) [OF assms(2)] by auto
qed

lemma rotationCycle_distinct_edges:
  assumes ok: "rotationOK nodeMap adjacency angleMap" and rc: "rotationCycle angleMap cyc"
  shows "i < j \<Longrightarrow> j < length cyc \<Longrightarrow>
         (cyc ! i, cyc ! ((i + 1) mod length cyc)) \<noteq> (cyc ! j, cyc ! ((j + 1) mod length cyc))"
proof (induction i arbitrary: j)
  case 0
  with rc have "(cyc ! j, cyc ! ((j + 1) mod length cyc)) \<noteq> (cyc ! 0, cyc ! 1)"
    unfolding rotationCycle_def by simp
  moreover from rc have "1 mod length cyc = 1" unfolding rotationCycle_def by simp
  ultimately show ?case by auto
next
  case (Suc i)
  then obtain j' where j: "j = Suc j'" "i < j'" "j' < length cyc" "Suc j' < length cyc"
    by (cases j) auto
  let ?n = "length cyc"
  show ?case
  proof
    assume eq: "(cyc ! Suc i, cyc ! ((Suc i + 1) mod ?n)) = (cyc ! j, cyc ! ((j + 1) mod ?n))"
    from Suc.prems j have i: "i < ?n" "Suc i < ?n" by auto
    from rc i have 1: "nextNeighbor angleMap (cyc ! Suc i) (cyc ! i) = Some (cyc ! ((i + 2) mod ?n))"
      unfolding rotationCycle_def by (metis Suc_eq_plus1 mod_less)
    from rc j have 2: "nextNeighbor angleMap (cyc ! Suc j') (cyc ! j') = Some (cyc ! ((j' + 2) mod ?n))"
      unfolding rotationCycle_def by (metis Suc_eq_plus1 mod_less)
    from eq j have "cyc ! Suc i = cyc ! Suc j'" "cyc ! ((i + 2) mod ?n) = cyc ! ((j' + 2) mod ?n)"
      by simp_all
    with 1 2 have "cyc ! i = cyc ! j'"
      using nextNeighbor_inj [OF ok] by metis
    with \<open>cyc ! Suc i = cyc ! Suc j'\<close> i j
    have "(cyc ! i, cyc ! ((i + 1) mod ?n)) = (cyc ! j', cyc ! ((j' + 1) mod ?n))" by simp
    with Suc.IH [OF j(2,3)] show False by simp
  qed
qed

lemma signedArea_value: "signedArea pts = Inr (shoelace pts / 2)"
  by (simp add: signedArea_def crossSum_value shoelace_def)

definition nodePoints :: "(int \<Rightarrow> NodePoint option) \<Rightarrow> int list \<Rightarrow> Vec2 list" where
  "nodePoints nodeMap cycle =
     map (\<lambda>node. \<lparr>px = nx node, py = ny node\<rparr>) (List.map_filter nodeMap cycle)"

definition tracedFace :: "(int \<Rightarrow> NodePoint option) \<Rightarrow> (int \<Rightarrow> int list option) \<Rightarrow> Face \<Rightarrow> bool" where
  "tracedFace nodeMap angleMap f =
     (rotationCycle angleMap (fnodeIds f)
      \<and> fpoints f = nodePoints nodeMap (fnodeIds f)
      \<and> area f = shoelace (fpoints f) / 2
      \<and> 1 / 10000 < \<bar>area f\<bar>)"

lemma traceFrom_inv:
  assumes "\<forall>f \<in> set faces. tracedFace nodeMap angleMap f"
  shows "\<exists>visited' faces'. traceFrom nodeMap angleMap (visited, faces) start = Inr (visited', faces')
           \<and> (\<forall>f \<in> set faces'. tracedFace nodeMap angleMap f)"
proof -
  obtain startU startV where start: "start = (startU, startV)" by (cases start)
  obtain isClosed path traversed
    where run: "traceLoop angleMap startU startV 0 startU startV [startU] [] = (isClosed, path, traversed)"
    by (metis prod_cases3)
  show ?thesis
  proof (cases "(startU, startV) \<notin> visited \<and> isClosed \<and> 4 \<le> length path")
    case False
    with assms show ?thesis
      by (auto simp: traceFrom_def start run)
  next
    case True
    with run have run': "traceLoop angleMap startU startV 0 startU startV [startU] [] = (True, path, traversed)"
      by simp
    from True have len: "4 \<le> length path" by simp
    have rc: "rotationCycle angleMap (butlast path)"
      using closed_trace_rotationCycle [OF run' len] .
    let ?pts = "nodePoints nodeMap (butlast path)"
    let ?face = "\<lparr>fnodeIds = butlast path, fpoints = ?pts, area = shoelace ?pts / 2\<rparr>"
    have eq: "traceFrom nodeMap angleMap (visited, faces) start =
          Inr (visited \<union> set traversed,
               if 3 \<le> length ?pts \<and> 1 / 10000 < \<bar>shoelace ?pts / 2\<bar> then faces @ [?face] else faces)"
      using True by (simp add: traceFrom_def start run' nodePoints_def Let_def signedArea_value)
    have "tracedFace nodeMap angleMap ?face" if "1 / 10000 < \<bar>shoelace ?pts / 2\<bar>"
      using that rc by (simp add: tracedFace_def)
    with assms show ?thesis unfolding eq by auto
  qed
qed

lemma traceWalls_inv:
  "\<forall>f \<in> set (snd st). tracedFace nodeMap angleMap f \<Longrightarrow>
   \<exists>st'. traceWalls nodeMap angleMap st walls = Inr st'
         \<and> (\<forall>f \<in> set (snd st'). tracedFace nodeMap angleMap f)"
proof (induction walls arbitrary: st)
  case Nil
  then show ?case by simp
next
  case (Cons wall walls)
  obtain visited faces where st: "st = (visited, faces)" by (cases st)
  from Cons.prems st traceFrom_inv [of faces nodeMap angleMap visited "(wa wall, wb wall)"]
  obtain v1 f1 where 1: "traceFrom nodeMap angleMap st (wa wall, wb wall) = Inr (v1, f1)"
    "\<forall>f \<in> set f1. tracedFace nodeMap angleMap f" by auto
  from traceFrom_inv [OF 1(2), of v1 "(wb wall, wa wall)"]
  obtain v2 f2 where 2: "traceFrom nodeMap angleMap (v1, f1) (wb wall, wa wall) = Inr (v2, f2)"
    "\<forall>f \<in> set f2. tracedFace nodeMap angleMap f" by auto
  from Cons.IH [of "(v2, f2)"] 2(2) show ?case
    by (simp add: 1 2)
qed

lemma traceFaces_inv:
  "\<exists>faces. traceFaces nodes walls = Inr faces
     \<and> (\<forall>f \<in> set faces. tracedFace (nodeMapOf nodes)
            (buildAngleMap (nodeMapOf nodes) (buildAdjacency walls)) f)"
proof -
  let ?nm = "nodeMapOf nodes" and ?am = "buildAngleMap (nodeMapOf nodes) (buildAdjacency walls)"
  from traceWalls_inv [of "({}, [])" ?nm ?am walls]
  obtain st' where "traceWalls ?nm ?am ({}, []) walls = Inr st'"
    "\<forall>f \<in> set (snd st'). tracedFace ?nm ?am f" by auto
  then show ?thesis
    by (cases st') (simp add: traceFaces_def Let_def)
qed

subsection \<open>Grouping\<close>

lemma set_keepGroup: "set (keepGroup grp) \<subseteq> set grp"
  by (auto simp: keepGroup_def Let_def)

lemma hasKey_map: "hasKey (map (\<lambda>c. (c, g c)) ks) c = (c \<in> set ks)"
  by (induction ks) (auto simp: hasKey_def)

lemma pushTo_map:
  "pushTo (map (\<lambda>c. (c, g c)) ks) k v = map (\<lambda>c. (c, if c = k then g c @ [v] else g c)) ks"
  by (simp add: pushTo_def)

lemma groupFaces_snoc:
  "groupFaces componentByNode (faces @ [face]) =
     (let c = faceComponent componentByNode face
      in pushTo (ensureKey (groupFaces componentByNode faces) c) c face)"
  by (simp add: groupFaces_def)

lemma groupFaces_eq:
  "groupFaces componentByNode faces =
     map (\<lambda>c. (c, filter (\<lambda>f. faceComponent componentByNode f = c) faces))
         (dedupe (map (faceComponent componentByNode) faces))"
proof (induction faces rule: rev_induct)
  case Nil
  then show ?case by (simp add: groupFaces_def dedupe_def)
next
  case (snoc face faces)
  let ?fc = "faceComponent componentByNode"
  let ?g = "\<lambda>c. filter (\<lambda>f. ?fc f = c) faces"
  let ?ks = "dedupe (map ?fc faces)"
  show ?case
  proof (cases "?fc face \<in> set ?ks")
    case True
    then have "ensureKey (map (\<lambda>c. (c, ?g c)) ?ks) (?fc face) = map (\<lambda>c. (c, ?g c)) ?ks"
      by (simp add: ensureKey_def hasKey_map)
    with True show ?thesis
      by (simp add: groupFaces_snoc snoc.IH pushTo_map dedupe_snoc)
  next
    case False
    then have "?fc face \<notin> ?fc ` set faces" by simp
    then have "\<forall>x \<in> set faces. ?fc x \<noteq> ?fc face" by (metis imageI)
    then have "?g (?fc face) = []"
      by (simp add: filter_empty_conv)
    with False have e: "ensureKey (map (\<lambda>c. (c, ?g c)) ?ks) (?fc face)
                  = map (\<lambda>c. (c, ?g c)) (?ks @ [?fc face])"
      by (simp add: ensureKey_def hasKey_map)
    from False show ?thesis
      unfolding groupFaces_snoc Let_def snoc.IH e pushTo_map
      by (simp add: dedupe_snoc)
  qed
qed

lemma filterFaces_eq:
  "filterFaces walls faces =
     concat (map (\<lambda>c. keepGroup (filter (\<lambda>f. faceComponent (buildComponents (buildAdjacency walls)) f = c) faces))
               (dedupe (map (faceComponent (buildComponents (buildAdjacency walls))) faces)))"
  by (simp add: filterFaces_def Let_def groupFaces_eq comp_def)

lemma set_filterFaces: "set (filterFaces walls faces) \<subseteq> set faces"
  unfolding filterFaces_eq using set_keepGroup by fastforce

lemma in_toRooms:
  "room \<in> set (toRooms filtered) \<Longrightarrow>
   \<exists>f \<in> set filtered. nodeIds room = fnodeIds f \<and> points room = fpoints f"
  by (auto simp: toRooms_def in_set_enumerate_eq)

lemma toRooms_faces:
  "map (\<lambda>room. (nodeIds room, points room)) (toRooms filtered)
   = map (\<lambda>f. (fnodeIds f, fpoints f)) filtered"
proof -
  have "map (\<lambda>room. (nodeIds room, points room)) (toRooms filtered)
        = map ((\<lambda>f. (fnodeIds f, fpoints f)) \<circ> snd) (enumerate 0 filtered)"
    by (simp add: toRooms_def case_prod_unfold comp_def)
  also have "\<dots> = map (\<lambda>f. (fnodeIds f, fpoints f)) (map snd (enumerate 0 filtered))"
    by (simp only: map_map)
  also have "\<dots> = map (\<lambda>f. (fnodeIds f, fpoints f)) filtered"
    by (simp only: map_snd_enumerate)
  finally show ?thesis .
qed

lemma buildRoomsFromWalls_faces:
  "\<exists>rooms. buildRoomsFromWalls nodes walls = Inr rooms
     \<and> (\<forall>room \<in> set rooms. \<exists>f.
            tracedFace (nodeMapOf nodes) (buildAngleMap (nodeMapOf nodes) (buildAdjacency walls)) f
            \<and> nodeIds room = fnodeIds f \<and> points room = fpoints f)"
proof -
  obtain faces where f: "traceFaces nodes walls = Inr faces"
    "\<forall>f \<in> set faces. tracedFace (nodeMapOf nodes)
            (buildAngleMap (nodeMapOf nodes) (buildAdjacency walls)) f"
    using traceFaces_inv by blast
  show ?thesis
  proof (cases "faces = []")
    case True
    with f show ?thesis by (simp add: buildRoomsFromWalls_def)
  next
    case False
    with f have "buildRoomsFromWalls nodes walls = Inr (toRooms (filterFaces walls faces))"
      by (simp add: buildRoomsFromWalls_def)
    moreover have "\<exists>f. tracedFace (nodeMapOf nodes)
            (buildAngleMap (nodeMapOf nodes) (buildAdjacency walls)) f
            \<and> nodeIds room = fnodeIds f \<and> points room = fpoints f"
      if "room \<in> set (toRooms (filterFaces walls faces))" for room
      using in_toRooms [OF that] set_filterFaces [of walls faces] f(2) by blast
    ultimately show ?thesis by blast
  qed
qed

lemma foldl_nodeMap_Some:
  "foldl (\<lambda>m node. m(nid node \<mapsto> node)) m0 nodes k = Some n \<Longrightarrow>
   (n \<in> set nodes \<and> nid n = k) \<or> m0 k = Some n"
  by (induction nodes arbitrary: m0) (fastforce split: if_splits)+

lemma nodeMapOf_Some: "nodeMapOf nodes k = Some n \<Longrightarrow> n \<in> set nodes \<and> nid n = k"
  using foldl_nodeMap_Some [of Map.empty nodes k n] by (simp add: nodeMapOf_def)

lemma map_filter_total:
  "\<forall>x \<in> set xs. f x \<noteq> None \<Longrightarrow> List.map_filter f xs = map (\<lambda>x. the (f x)) xs"
  by (induction xs) (auto simp: List.map_filter_def)

definition cyclePairs :: "int list \<Rightarrow> (int \<times> int) list" where
  "cyclePairs cyc = map (\<lambda>i. (cyc ! i, cyc ! ((i + 1) mod length cyc))) [0..<length cyc]"

lemma rotationCycle_linked:
  assumes "rotationCycle (buildAngleMap (nodeMapOf nodes) (buildAdjacency walls)) cyc"
    and "i < length cyc"
  shows "linked walls (cyc ! i) (cyc ! ((i + 1) mod length cyc))"
    and "nodeMapOf nodes (cyc ! i) \<noteq> None"
proof -
  let ?am = "buildAngleMap (nodeMapOf nodes) (buildAdjacency walls)"
  from rotationCycle_step [OF assms]
  obtain u where u: "nextNeighbor ?am (cyc ! i) u = Some (cyc ! ((i + 1) mod length cyc))"
    by blast
  from nextNeighbor_linked [OF buildAngleMap_ok buildAdjacency_within u]
  show "linked walls (cyc ! i) (cyc ! ((i + 1) mod length cyc))"
    and "nodeMapOf nodes (cyc ! i) \<noteq> None" by auto
qed

section \<open>Worked inputs\<close>

text \<open>
  Four concrete plans, evaluated step by step: a single square room; a triangle with a
  smaller triangle inside it that touches it in one node (\<open>pinch\<close>); the square with one
  more wall whose second endpoint is no node (\<open>stray\<close>); and two squares sharing a wall,
  one of them with a dangling wall inside (\<open>annex\<close>).
\<close>

lemma atan2_values:
  "0 < x \<Longrightarrow> atan2 0 x = 0"
  "x < 0 \<Longrightarrow> atan2 0 x = pi"
  "0 < y \<Longrightarrow> atan2 y 0 = pi / 2"
  "y < 0 \<Longrightarrow> atan2 y 0 = - (pi / 2)"
  "0 < x \<Longrightarrow> atan2 x x = pi / 4"
  "0 < x \<Longrightarrow> atan2 x (- x) = 3 * pi / 4"
  "0 < x \<Longrightarrow> atan2 (- x) x = - (pi / 4)"
  "0 < x \<Longrightarrow> atan2 (- x) (- x) = - (3 * pi / 4)"
  by (simp_all add: atan2_def arctan_one arctan_minus)

lemma shoelace_values:
  "shoelace [a, b, c] =
     (px a * py b - px b * py a) + (px b * py c - px c * py b) + (px c * py a - px a * py c)"
  "shoelace [a, b, c, d] =
     (px a * py b - px b * py a) + (px b * py c - px c * py b) + (px c * py d - px d * py c)
     + (px d * py a - px a * py d)"
  "shoelace [a, b, c, d, e, f] =
     (px a * py b - px b * py a) + (px b * py c - px c * py b) + (px c * py d - px d * py c)
     + (px d * py e - px e * py d) + (px e * py f - px f * py e) + (px f * py a - px a * py f)"
  "shoelace [a, b, c, d, e, f, g] =
     (px a * py b - px b * py a) + (px b * py c - px c * py b) + (px c * py d - px d * py c)
     + (px d * py e - px e * py d) + (px e * py f - px f * py e) + (px f * py g - px g * py f)
     + (px g * py a - px a * py g)"
  by (simp_all add: shoelace_def crossTerm_def upt_rec)

definition squareNodes :: "NodePoint list" where
  "squareNodes =
     [\<lparr>nid = 1, nx = 0, ny = 0\<rparr>,
      \<lparr>nid = 2, nx = 10, ny = 0\<rparr>,
      \<lparr>nid = 3, nx = 10, ny = 10\<rparr>,
      \<lparr>nid = 4, nx = 0, ny = 10\<rparr>]"

definition squareWalls :: "Wall list" where
  "squareWalls =
     [\<lparr>wid = 1, wa = 1, wb = 2, thickness = 1 / 5\<rparr>,
      \<lparr>wid = 2, wa = 2, wb = 3, thickness = 1 / 5\<rparr>,
      \<lparr>wid = 3, wa = 3, wb = 4, thickness = 1 / 5\<rparr>,
      \<lparr>wid = 4, wa = 4, wb = 1, thickness = 1 / 5\<rparr>]"

definition squareAngleMap :: "int \<Rightarrow> int list option" where
  "squareAngleMap = [1 \<mapsto> [2, 4], 2 \<mapsto> [3, 1], 3 \<mapsto> [2, 4], 4 \<mapsto> [1, 3]]"

lemma square_adjacency:
  "buildAdjacency squareWalls = [(1, [2, 4]), (2, [1, 3]), (3, [2, 4]), (4, [3, 1])]"
  by (simp add: buildAdjacency_def squareWalls_def addWall_def ensureKey_def hasKey_def pushTo_def)

lemma square_angleMap:
  "buildAngleMap (nodeMapOf squareNodes) (buildAdjacency squareWalls) = squareAngleMap"
  unfolding square_adjacency squareAngleMap_def
  by (simp add: buildAngleMap_def nodeMapOf_def squareNodes_def dedupe_def sortBy_def compareAngle_def
      atan2_values)

lemma square_trace_1_2:
  "traceLoop squareAngleMap 1 2 0 1 2 [1] [] =
     (True, [1, 2, 3, 4, 1],
      [(1, 2), (2, 3), (3, 4), (4, 1)])"
  by (simp add: traceLoop.simps squareAngleMap_def nextNeighbor_def)

lemma square_trace_2_1:
  "traceLoop squareAngleMap 2 1 0 2 1 [2] [] =
     (True, [2, 1, 4, 3, 2],
      [(2, 1), (1, 4), (4, 3), (3, 2)])"
  by (simp add: traceLoop.simps squareAngleMap_def nextNeighbor_def)

lemmas square_traces = square_trace_1_2 square_trace_2_1

lemma square_nodeMap:
  "nodeMapOf squareNodes 1 = Some \<lparr>nid = 1, nx = 0, ny = 0\<rparr>"
  "nodeMapOf squareNodes 2 = Some \<lparr>nid = 2, nx = 10, ny = 0\<rparr>"
  "nodeMapOf squareNodes 3 = Some \<lparr>nid = 3, nx = 10, ny = 10\<rparr>"
  "nodeMapOf squareNodes 4 = Some \<lparr>nid = 4, nx = 0, ny = 10\<rparr>"
  by (simp_all add: nodeMapOf_def squareNodes_def)

lemma square_faces:
  "traceFaces squareNodes squareWalls =
     Inr [\<lparr>fnodeIds = [1, 2, 3, 4],
      fpoints = [\<lparr>px = 0, py = 0\<rparr>, \<lparr>px = 10, py = 0\<rparr>, \<lparr>px = 10, py = 10\<rparr>, \<lparr>px = 0, py = 10\<rparr>],
      area = 100\<rparr>,
          \<lparr>fnodeIds = [2, 1, 4, 3],
      fpoints = [\<lparr>px = 10, py = 0\<rparr>, \<lparr>px = 0, py = 0\<rparr>, \<lparr>px = 0, py = 10\<rparr>, \<lparr>px = 10, py = 10\<rparr>],
      area = - 100\<rparr>]"
  unfolding traceFaces_def Let_def square_angleMap
  by (simp add: squareWalls_def traceFrom_def square_traces List.map_filter_def square_nodeMap
      signedArea_value shoelace_values)

lemma square_components:
  "buildComponents (buildAdjacency squareWalls) = [1 \<mapsto> 0, 2 \<mapsto> 0, 4 \<mapsto> 0, 3 \<mapsto> 0]"
  unfolding square_adjacency
  by (simp add: buildComponents_def componentsStep_def neighborsOf_def)

lemma square_filtered:
  "filterFaces squareWalls
     [\<lparr>fnodeIds = [1, 2, 3, 4],
      fpoints = [\<lparr>px = 0, py = 0\<rparr>, \<lparr>px = 10, py = 0\<rparr>, \<lparr>px = 10, py = 10\<rparr>, \<lparr>px = 0, py = 10\<rparr>],
      area = 100\<rparr>,
      \<lparr>fnodeIds = [2, 1, 4, 3],
      fpoints = [\<lparr>px = 10, py = 0\<rparr>, \<lparr>px = 0, py = 0\<rparr>, \<lparr>px = 0, py = 10\<rparr>, \<lparr>px = 10, py = 10\<rparr>],
      area = - 100\<rparr>] =
     [\<lparr>fnodeIds = [1, 2, 3, 4],
      fpoints = [\<lparr>px = 0, py = 0\<rparr>, \<lparr>px = 10, py = 0\<rparr>, \<lparr>px = 10, py = 10\<rparr>, \<lparr>px = 0, py = 10\<rparr>],
      area = 100\<rparr>]"
  unfolding filterFaces_def Let_def square_components
  by (simp add: groupFaces_def faceComponent_def ensureKey_def hasKey_def pushTo_def
      keepGroup_def absSum_def)

lemma square_rooms:
  "buildRoomsFromWalls squareNodes squareWalls =
     Inr [\<lparr>rid = 1, nodeIds = [1, 2, 3, 4],
      points = [\<lparr>px = 0, py = 0\<rparr>, \<lparr>px = 10, py = 0\<rparr>, \<lparr>px = 10, py = 10\<rparr>, \<lparr>px = 0, py = 10\<rparr>]\<rparr>]"
  by (simp add: buildRoomsFromWalls_def square_faces square_filtered toRooms_def)

definition pinchNodes :: "NodePoint list" where
  "pinchNodes =
     [\<lparr>nid = 1, nx = - 10, ny = 0\<rparr>,
      \<lparr>nid = 2, nx = 0, ny = 0\<rparr>,
      \<lparr>nid = 3, nx = 10, ny = 0\<rparr>,
      \<lparr>nid = 4, nx = 0, ny = 10\<rparr>,
      \<lparr>nid = 5, nx = 2, ny = 2\<rparr>,
      \<lparr>nid = 6, nx = - 2, ny = 2\<rparr>]"

definition pinchWalls :: "Wall list" where
  "pinchWalls =
     [\<lparr>wid = 1, wa = 1, wb = 2, thickness = 1 / 5\<rparr>,
      \<lparr>wid = 2, wa = 2, wb = 3, thickness = 1 / 5\<rparr>,
      \<lparr>wid = 3, wa = 3, wb = 4, thickness = 1 / 5\<rparr>,
      \<lparr>wid = 4, wa = 4, wb = 1, thickness = 1 / 5\<rparr>,
      \<lparr>wid = 5, wa = 2, wb = 5, thickness = 1 / 5\<rparr>,
      \<lparr>wid = 6, wa = 5, wb = 6, thickness = 1 / 5\<rparr>,
      \<lparr>wid = 7, wa = 6, wb = 2, thickness = 1 / 5\<rparr>]"

definition pinchAngleMap :: "int \<Rightarrow> int list option" where
  "pinchAngleMap = [1 \<mapsto> [2, 4], 2 \<mapsto> [3, 5, 6, 1], 3 \<mapsto> [4, 2], 4 \<mapsto> [1, 3], 5 \<mapsto> [2, 6], 6 \<mapsto> [2, 5]]"

lemma pinch_adjacency:
  "buildAdjacency pinchWalls = [(1, [2, 4]), (2, [1, 3, 5, 6]), (3, [2, 4]), (4, [3, 1]), (5, [2, 6]), (6, [5, 2])]"
  by (simp add: buildAdjacency_def pinchWalls_def addWall_def ensureKey_def hasKey_def pushTo_def)

lemma pinch_angleMap:
  "buildAngleMap (nodeMapOf pinchNodes) (buildAdjacency pinchWalls) = pinchAngleMap"
  unfolding pinch_adjacency pinchAngleMap_def
  by (simp add: buildAngleMap_def nodeMapOf_def pinchNodes_def dedupe_def sortBy_def compareAngle_def
      atan2_values)

lemma pinch_trace_1_2:
  "traceLoop pinchAngleMap 1 2 0 1 2 [1] [] =
     (True, [1, 2, 6, 5, 2, 3, 4, 1],
      [(1, 2), (2, 6), (6, 5), (5, 2), (2, 3), (3, 4), (4, 1)])"
  by (simp add: traceLoop.simps pinchAngleMap_def nextNeighbor_def)

lemma pinch_trace_2_1:
  "traceLoop pinchAngleMap 2 1 0 2 1 [2] [] =
     (True, [2, 1, 4, 3, 2],
      [(2, 1), (1, 4), (4, 3), (3, 2)])"
  by (simp add: traceLoop.simps pinchAngleMap_def nextNeighbor_def)

lemma pinch_trace_2_5:
  "traceLoop pinchAngleMap 2 5 0 2 5 [2] [] =
     (True, [2, 5, 6, 2],
      [(2, 5), (5, 6), (6, 2)])"
  by (simp add: traceLoop.simps pinchAngleMap_def nextNeighbor_def)

lemmas pinch_traces = pinch_trace_1_2 pinch_trace_2_1 pinch_trace_2_5

lemma pinch_nodeMap:
  "nodeMapOf pinchNodes 1 = Some \<lparr>nid = 1, nx = - 10, ny = 0\<rparr>"
  "nodeMapOf pinchNodes 2 = Some \<lparr>nid = 2, nx = 0, ny = 0\<rparr>"
  "nodeMapOf pinchNodes 3 = Some \<lparr>nid = 3, nx = 10, ny = 0\<rparr>"
  "nodeMapOf pinchNodes 4 = Some \<lparr>nid = 4, nx = 0, ny = 10\<rparr>"
  "nodeMapOf pinchNodes 5 = Some \<lparr>nid = 5, nx = 2, ny = 2\<rparr>"
  "nodeMapOf pinchNodes 6 = Some \<lparr>nid = 6, nx = - 2, ny = 2\<rparr>"
  by (simp_all add: nodeMapOf_def pinchNodes_def)

lemma pinch_faces:
  "traceFaces pinchNodes pinchWalls =
     Inr [\<lparr>fnodeIds = [1, 2, 6, 5, 2, 3, 4],
      fpoints = [\<lparr>px = - 10, py = 0\<rparr>, \<lparr>px = 0, py = 0\<rparr>, \<lparr>px = - 2, py = 2\<rparr>, \<lparr>px = 2, py = 2\<rparr>, \<lparr>px = 0, py = 0\<rparr>, \<lparr>px = 10, py = 0\<rparr>, \<lparr>px = 0, py = 10\<rparr>],
      area = 96\<rparr>,
          \<lparr>fnodeIds = [2, 1, 4, 3],
      fpoints = [\<lparr>px = 0, py = 0\<rparr>, \<lparr>px = - 10, py = 0\<rparr>, \<lparr>px = 0, py = 10\<rparr>, \<lparr>px = 10, py = 0\<rparr>],
      area = - 100\<rparr>,
          \<lparr>fnodeIds = [2, 5, 6],
      fpoints = [\<lparr>px = 0, py = 0\<rparr>, \<lparr>px = 2, py = 2\<rparr>, \<lparr>px = - 2, py = 2\<rparr>],
      area = 4\<rparr>]"
  unfolding traceFaces_def Let_def pinch_angleMap
  by (simp add: pinchWalls_def traceFrom_def pinch_traces List.map_filter_def pinch_nodeMap
      signedArea_value shoelace_values)

lemma pinch_components:
  "buildComponents (buildAdjacency pinchWalls) = [1 \<mapsto> 0, 2 \<mapsto> 0, 4 \<mapsto> 0, 3 \<mapsto> 0, 5 \<mapsto> 0, 6 \<mapsto> 0]"
  unfolding pinch_adjacency
  by (simp add: buildComponents_def componentsStep_def neighborsOf_def)

lemma pinch_filtered:
  "filterFaces pinchWalls
     [\<lparr>fnodeIds = [1, 2, 6, 5, 2, 3, 4],
      fpoints = [\<lparr>px = - 10, py = 0\<rparr>, \<lparr>px = 0, py = 0\<rparr>, \<lparr>px = - 2, py = 2\<rparr>, \<lparr>px = 2, py = 2\<rparr>, \<lparr>px = 0, py = 0\<rparr>, \<lparr>px = 10, py = 0\<rparr>, \<lparr>px = 0, py = 10\<rparr>],
      area = 96\<rparr>,
      \<lparr>fnodeIds = [2, 1, 4, 3],
      fpoints = [\<lparr>px = 0, py = 0\<rparr>, \<lparr>px = - 10, py = 0\<rparr>, \<lparr>px = 0, py = 10\<rparr>, \<lparr>px = 10, py = 0\<rparr>],
      area = - 100\<rparr>,
      \<lparr>fnodeIds = [2, 5, 6],
      fpoints = [\<lparr>px = 0, py = 0\<rparr>, \<lparr>px = 2, py = 2\<rparr>, \<lparr>px = - 2, py = 2\<rparr>],
      area = 4\<rparr>] =
     [\<lparr>fnodeIds = [1, 2, 6, 5, 2, 3, 4],
      fpoints = [\<lparr>px = - 10, py = 0\<rparr>, \<lparr>px = 0, py = 0\<rparr>, \<lparr>px = - 2, py = 2\<rparr>, \<lparr>px = 2, py = 2\<rparr>, \<lparr>px = 0, py = 0\<rparr>, \<lparr>px = 10, py = 0\<rparr>, \<lparr>px = 0, py = 10\<rparr>],
      area = 96\<rparr>,
      \<lparr>fnodeIds = [2, 5, 6],
      fpoints = [\<lparr>px = 0, py = 0\<rparr>, \<lparr>px = 2, py = 2\<rparr>, \<lparr>px = - 2, py = 2\<rparr>],
      area = 4\<rparr>]"
  unfolding filterFaces_def Let_def pinch_components
  by (simp add: groupFaces_def faceComponent_def ensureKey_def hasKey_def pushTo_def
      keepGroup_def absSum_def)

lemma pinch_rooms:
  "buildRoomsFromWalls pinchNodes pinchWalls =
     Inr [\<lparr>rid = 1, nodeIds = [1, 2, 6, 5, 2, 3, 4],
      points = [\<lparr>px = - 10, py = 0\<rparr>, \<lparr>px = 0, py = 0\<rparr>, \<lparr>px = - 2, py = 2\<rparr>, \<lparr>px = 2, py = 2\<rparr>, \<lparr>px = 0, py = 0\<rparr>, \<lparr>px = 10, py = 0\<rparr>, \<lparr>px = 0, py = 10\<rparr>]\<rparr>,
          \<lparr>rid = 2, nodeIds = [2, 5, 6],
      points = [\<lparr>px = 0, py = 0\<rparr>, \<lparr>px = 2, py = 2\<rparr>, \<lparr>px = - 2, py = 2\<rparr>]\<rparr>]"
  by (simp add: buildRoomsFromWalls_def pinch_faces pinch_filtered toRooms_def)

definition strayNodes :: "NodePoint list" where
  "strayNodes =
     [\<lparr>nid = 1, nx = 0, ny = 0\<rparr>,
      \<lparr>nid = 2, nx = 10, ny = 0\<rparr>,
      \<lparr>nid = 3, nx = 10, ny = 10\<rparr>,
      \<lparr>nid = 4, nx = 0, ny = 10\<rparr>]"

definition strayWalls :: "Wall list" where
  "strayWalls =
     [\<lparr>wid = 1, wa = 1, wb = 2, thickness = 1 / 5\<rparr>,
      \<lparr>wid = 2, wa = 2, wb = 3, thickness = 1 / 5\<rparr>,
      \<lparr>wid = 3, wa = 3, wb = 4, thickness = 1 / 5\<rparr>,
      \<lparr>wid = 4, wa = 4, wb = 1, thickness = 1 / 5\<rparr>,
      \<lparr>wid = 5, wa = 2, wb = 9, thickness = 1 / 5\<rparr>]"

definition strayAngleMap :: "int \<Rightarrow> int list option" where
  "strayAngleMap = [1 \<mapsto> [2, 4], 2 \<mapsto> [3, 1, 9], 3 \<mapsto> [2, 4], 4 \<mapsto> [1, 3]]"

lemma stray_adjacency:
  "buildAdjacency strayWalls = [(1, [2, 4]), (2, [1, 3, 9]), (3, [2, 4]), (4, [3, 1]), (9, [2])]"
  by (simp add: buildAdjacency_def strayWalls_def addWall_def ensureKey_def hasKey_def pushTo_def)

lemma stray_angleMap:
  "buildAngleMap (nodeMapOf strayNodes) (buildAdjacency strayWalls) = strayAngleMap"
  unfolding stray_adjacency strayAngleMap_def
  by (simp add: buildAngleMap_def nodeMapOf_def strayNodes_def dedupe_def sortBy_def compareAngle_def
      atan2_values)

lemma stray_trace_1_2:
  "traceLoop strayAngleMap 1 2 0 1 2 [1] [] =
     (True, [1, 2, 3, 4, 1],
      [(1, 2), (2, 3), (3, 4), (4, 1)])"
  by (simp add: traceLoop.simps strayAngleMap_def nextNeighbor_def)

lemma stray_trace_2_1:
  "traceLoop strayAngleMap 2 1 0 2 1 [2] [] =
     (False, [2, 1, 4, 3, 2, 9],
      [(2, 1), (1, 4), (4, 3), (3, 2), (2, 9)])"
  by (simp add: traceLoop.simps strayAngleMap_def nextNeighbor_def)

lemma stray_trace_3_2:
  "traceLoop strayAngleMap 3 2 0 3 2 [3] [] =
     (False, [3, 2, 9],
      [(3, 2), (2, 9)])"
  by (simp add: traceLoop.simps strayAngleMap_def nextNeighbor_def)

lemma stray_trace_4_3:
  "traceLoop strayAngleMap 4 3 0 4 3 [4] [] =
     (False, [4, 3, 2, 9],
      [(4, 3), (3, 2), (2, 9)])"
  by (simp add: traceLoop.simps strayAngleMap_def nextNeighbor_def)

lemma stray_trace_1_4:
  "traceLoop strayAngleMap 1 4 0 1 4 [1] [] =
     (False, [1, 4, 3, 2, 9],
      [(1, 4), (4, 3), (3, 2), (2, 9)])"
  by (simp add: traceLoop.simps strayAngleMap_def nextNeighbor_def)

lemma stray_trace_2_9:
  "traceLoop strayAngleMap 2 9 0 2 9 [2] [] =
     (False, [2, 9],
      [(2, 9)])"
  by (simp add: traceLoop.simps strayAngleMap_def nextNeighbor_def)

lemma stray_trace_9_2:
  "traceLoop strayAngleMap 9 2 0 9 2 [9] [] =
     (False, [9, 2, 1, 4, 3, 2, 9],
      [(9, 2), (2, 1), (1, 4), (4, 3), (3, 2), (2, 9)])"
  by (simp add: traceLoop.simps strayAngleMap_def nextNeighbor_def)

lemmas stray_traces = stray_trace_1_2 stray_trace_2_1 stray_trace_3_2 stray_trace_4_3 stray_trace_1_4 stray_trace_2_9 stray_trace_9_2

lemma stray_nodeMap:
  "nodeMapOf strayNodes 1 = Some \<lparr>nid = 1, nx = 0, ny = 0\<rparr>"
  "nodeMapOf strayNodes 2 = Some \<lparr>nid = 2, nx = 10, ny = 0\<rparr>"
  "nodeMapOf strayNodes 3 = Some \<lparr>nid = 3, nx = 10, ny = 10\<rparr>"
  "nodeMapOf strayNodes 4 = Some \<lparr>nid = 4, nx = 0, ny = 10\<rparr>"
  by (simp_all add: nodeMapOf_def strayNodes_def)

lemma stray_faces:
  "traceFaces strayNodes strayWalls =
     Inr [\<lparr>fnodeIds = [1, 2, 3, 4],
      fpoints = [\<lparr>px = 0, py = 0\<rparr>, \<lparr>px = 10, py = 0\<rparr>, \<lparr>px = 10, py = 10\<rparr>, \<lparr>px = 0, py = 10\<rparr>],
      area = 100\<rparr>]"
  unfolding traceFaces_def Let_def stray_angleMap
  by (simp add: strayWalls_def traceFrom_def stray_traces List.map_filter_def stray_nodeMap
      signedArea_value shoelace_values)

lemma stray_components:
  "buildComponents (buildAdjacency strayWalls) = [1 \<mapsto> 0, 2 \<mapsto> 0, 4 \<mapsto> 0, 3 \<mapsto> 0, 9 \<mapsto> 0]"
  unfolding stray_adjacency
  by (simp add: buildComponents_def componentsStep_def neighborsOf_def)

lemma stray_filtered:
  "filterFaces strayWalls
     [\<lparr>fnodeIds = [1, 2, 3, 4],
      fpoints = [\<lparr>px = 0, py = 0\<rparr>, \<lparr>px = 10, py = 0\<rparr>, \<lparr>px = 10, py = 10\<rparr>, \<lparr>px = 0, py = 10\<rparr>],
      area = 100\<rparr>] =
     [\<lparr>fnodeIds = [1, 2, 3, 4],
      fpoints = [\<lparr>px = 0, py = 0\<rparr>, \<lparr>px = 10, py = 0\<rparr>, \<lparr>px = 10, py = 10\<rparr>, \<lparr>px = 0, py = 10\<rparr>],
      area = 100\<rparr>]"
  unfolding filterFaces_def Let_def stray_components
  by (simp add: groupFaces_def faceComponent_def ensureKey_def hasKey_def pushTo_def
      keepGroup_def absSum_def)

lemma stray_rooms:
  "buildRoomsFromWalls strayNodes strayWalls =
     Inr [\<lparr>rid = 1, nodeIds = [1, 2, 3, 4],
      points = [\<lparr>px = 0, py = 0\<rparr>, \<lparr>px = 10, py = 0\<rparr>, \<lparr>px = 10, py = 10\<rparr>, \<lparr>px = 0, py = 10\<rparr>]\<rparr>]"
  by (simp add: buildRoomsFromWalls_def stray_faces stray_filtered toRooms_def)

definition annexNodes :: "NodePoint list" where
  "annexNodes =
     [\<lparr>nid = 1, nx = 0, ny = 0\<rparr>,
      \<lparr>nid = 2, nx = 10, ny = 0\<rparr>,
      \<lparr>nid = 3, nx = 10, ny = 10\<rparr>,
      \<lparr>nid = 4, nx = 0, ny = 10\<rparr>,
      \<lparr>nid = 5, nx = 20, ny = 0\<rparr>,
      \<lparr>nid = 6, nx = 20, ny = 10\<rparr>,
      \<lparr>nid = 7, nx = 15, ny = 5\<rparr>]"

definition annexWalls :: "Wall list" where
  "annexWalls =
     [\<lparr>wid = 1, wa = 1, wb = 2, thickness = 1 / 5\<rparr>,
      \<lparr>wid = 2, wa = 2, wb = 3, thickness = 1 / 5\<rparr>,
      \<lparr>wid = 3, wa = 3, wb = 4, thickness = 1 / 5\<rparr>,
      \<lparr>wid = 4, wa = 4, wb = 1, thickness = 1 / 5\<rparr>,
      \<lparr>wid = 5, wa = 2, wb = 5, thickness = 1 / 5\<rparr>,
      \<lparr>wid = 6, wa = 5, wb = 6, thickness = 1 / 5\<rparr>,
      \<lparr>wid = 7, wa = 6, wb = 3, thickness = 1 / 5\<rparr>,
      \<lparr>wid = 8, wa = 2, wb = 7, thickness = 1 / 5\<rparr>]"

definition annexAngleMap :: "int \<Rightarrow> int list option" where
  "annexAngleMap = [1 \<mapsto> [2, 4], 2 \<mapsto> [5, 7, 3, 1], 3 \<mapsto> [2, 6, 4], 4 \<mapsto> [1, 3], 5 \<mapsto> [6, 2], 6 \<mapsto> [5, 3], 7 \<mapsto> [2]]"

lemma annex_adjacency:
  "buildAdjacency annexWalls = [(1, [2, 4]), (2, [1, 3, 5, 7]), (3, [2, 4, 6]), (4, [3, 1]), (5, [2, 6]), (6, [5, 3]), (7, [2])]"
  by (simp add: buildAdjacency_def annexWalls_def addWall_def ensureKey_def hasKey_def pushTo_def)

lemma annex_angleMap:
  "buildAngleMap (nodeMapOf annexNodes) (buildAdjacency annexWalls) = annexAngleMap"
  unfolding annex_adjacency annexAngleMap_def
  by (simp add: buildAngleMap_def nodeMapOf_def annexNodes_def dedupe_def sortBy_def compareAngle_def
      atan2_values)

lemma annex_trace_1_2:
  "traceLoop annexAngleMap 1 2 0 1 2 [1] [] =
     (True, [1, 2, 3, 4, 1],
      [(1, 2), (2, 3), (3, 4), (4, 1)])"
  by (simp add: traceLoop.simps annexAngleMap_def nextNeighbor_def)

lemma annex_trace_2_1:
  "traceLoop annexAngleMap 2 1 0 2 1 [2] [] =
     (True, [2, 1, 4, 3, 6, 5, 2],
      [(2, 1), (1, 4), (4, 3), (3, 6), (6, 5), (5, 2)])"
  by (simp add: traceLoop.simps annexAngleMap_def nextNeighbor_def)

lemma annex_trace_3_2:
  "traceLoop annexAngleMap 3 2 0 3 2 [3] [] =
     (False, [3, 2, 7],
      [(3, 2), (2, 7)])"
  by (simp add: traceLoop.simps annexAngleMap_def nextNeighbor_def)

lemma annex_trace_2_5:
  "traceLoop annexAngleMap 2 5 0 2 5 [2] [] =
     (False, [2, 5, 6, 3, 2, 7],
      [(2, 5), (5, 6), (6, 3), (3, 2), (2, 7)])"
  by (simp add: traceLoop.simps annexAngleMap_def nextNeighbor_def)

lemma annex_trace_5_6:
  "traceLoop annexAngleMap 5 6 0 5 6 [5] [] =
     (False, [5, 6, 3, 2, 7],
      [(5, 6), (6, 3), (3, 2), (2, 7)])"
  by (simp add: traceLoop.simps annexAngleMap_def nextNeighbor_def)

lemma annex_trace_6_3:
  "traceLoop annexAngleMap 6 3 0 6 3 [6] [] =
     (False, [6, 3, 2, 7],
      [(6, 3), (3, 2), (2, 7)])"
  by (simp add: traceLoop.simps annexAngleMap_def nextNeighbor_def)

lemma annex_trace_2_7:
  "traceLoop annexAngleMap 2 7 0 2 7 [2] [] =
     (False, [2, 7],
      [(2, 7)])"
  by (simp add: traceLoop.simps annexAngleMap_def nextNeighbor_def)

lemma annex_trace_7_2:
  "traceLoop annexAngleMap 7 2 0 7 2 [7] [] =
     (False, [7, 2, 5, 6, 3, 2, 7],
      [(7, 2), (2, 5), (5, 6), (6, 3), (3, 2), (2, 7)])"
  by (simp add: traceLoop.simps annexAngleMap_def nextNeighbor_def)

lemmas annex_traces = annex_trace_1_2 annex_trace_2_1 annex_trace_3_2 annex_trace_2_5 annex_trace_5_6 annex_trace_6_3 annex_trace_2_7 annex_trace_7_2

lemma annex_nodeMap:
  "nodeMapOf annexNodes 1 = Some \<lparr>nid = 1, nx = 0, ny = 0\<rparr>"
  "nodeMapOf annexNodes 2 = Some \<lparr>nid = 2, nx = 10, ny = 0\<rparr>"
  "nodeMapOf annexNodes 3 = Some \<lparr>nid = 3, nx = 10, ny = 10\<rparr>"
  "nodeMapOf annexNodes 4 = Some \<lparr>nid = 4, nx = 0, ny = 10\<rparr>"
  "nodeMapOf annexNodes 5 = Some \<lparr>nid = 5, nx = 20, ny = 0\<rparr>"
  "nodeMapOf annexNodes 6 = Some \<lparr>nid = 6, nx = 20, ny = 10\<rparr>"
  "nodeMapOf annexNodes 7 = Some \<lparr>nid = 7, nx = 15, ny = 5\<rparr>"
  by (simp_all add: nodeMapOf_def annexNodes_def)

lemma annex_faces:
  "traceFaces annexNodes annexWalls =
     Inr [\<lparr>fnodeIds = [1, 2, 3, 4],
      fpoints = [\<lparr>px = 0, py = 0\<rparr>, \<lparr>px = 10, py = 0\<rparr>, \<lparr>px = 10, py = 10\<rparr>, \<lparr>px = 0, py = 10\<rparr>],
      area = 100\<rparr>,
          \<lparr>fnodeIds = [2, 1, 4, 3, 6, 5],
      fpoints = [\<lparr>px = 10, py = 0\<rparr>, \<lparr>px = 0, py = 0\<rparr>, \<lparr>px = 0, py = 10\<rparr>, \<lparr>px = 10, py = 10\<rparr>, \<lparr>px = 20, py = 10\<rparr>, \<lparr>px = 20, py = 0\<rparr>],
      area = - 200\<rparr>]"
  unfolding traceFaces_def Let_def annex_angleMap
  by (simp add: annexWalls_def traceFrom_def annex_traces List.map_filter_def annex_nodeMap
      signedArea_value shoelace_values)

lemma annex_components:
  "buildComponents (buildAdjacency annexWalls) = [1 \<mapsto> 0, 2 \<mapsto> 0, 4 \<mapsto> 0, 3 \<mapsto> 0, 5 \<mapsto> 0, 7 \<mapsto> 0, 6 \<mapsto> 0]"
  unfolding annex_adjacency
  by (simp add: buildComponents_def componentsStep_def neighborsOf_def)

lemma annex_filtered:
  "filterFaces annexWalls
     [\<lparr>fnodeIds = [1, 2, 3, 4],
      fpoints = [\<lparr>px = 0, py = 0\<rparr>, \<lparr>px = 10, py = 0\<rparr>, \<lparr>px = 10, py = 10\<rparr>, \<lparr>px = 0, py = 10\<rparr>],
      area = 100\<rparr>,
      \<lparr>fnodeIds = [2, 1, 4, 3, 6, 5],
      fpoints = [\<lparr>px = 10, py = 0\<rparr>, \<lparr>px = 0, py = 0\<rparr>, \<lparr>px = 0, py = 10\<rparr>, \<lparr>px = 10, py = 10\<rparr>, \<lparr>px = 20, py = 10\<rparr>, \<lparr>px = 20, py = 0\<rparr>],
      area = - 200\<rparr>] =
     [\<lparr>fnodeIds = [1, 2, 3, 4],
      fpoints = [\<lparr>px = 0, py = 0\<rparr>, \<lparr>px = 10, py = 0\<rparr>, \<lparr>px = 10, py = 10\<rparr>, \<lparr>px = 0, py = 10\<rparr>],
      area = 100\<rparr>]"
  unfolding filterFaces_def Let_def annex_components
  by (simp add: groupFaces_def faceComponent_def ensureKey_def hasKey_def pushTo_def
      keepGroup_def absSum_def)

lemma annex_rooms:
  "buildRoomsFromWalls annexNodes annexWalls =
     Inr [\<lparr>rid = 1, nodeIds = [1, 2, 3, 4],
      points = [\<lparr>px = 0, py = 0\<rparr>, \<lparr>px = 10, py = 0\<rparr>, \<lparr>px = 10, py = 10\<rparr>, \<lparr>px = 0, py = 10\<rparr>]\<rparr>]"
  by (simp add: buildRoomsFromWalls_def annex_faces annex_filtered toRooms_def)

section \<open>Claim C2\<close>

text \<open>
  C2. \<open>buildRoomsFromWalls\<close> returns for every node list and wall list, and every Room it
  returns satisfies: for every consecutive pair of ids in its \<open>nodeIds\<close> cycle, the
  wrap-around pair from the last id back to the first included, the input wall list
  has a wall whose two endpoints are that pair, in either direction.
\<close>

theorem rooms_follow_walls:
  "\<exists>rooms. buildRoomsFromWalls nodes walls = Inr rooms
     \<and> (\<forall>room \<in> set rooms. \<forall>i < length (nodeIds room).
            linked walls (nodeIds room ! i) (nodeIds room ! ((i + 1) mod length (nodeIds room))))"
proof -
  from buildRoomsFromWalls_faces [of nodes walls]
  obtain rooms where r: "buildRoomsFromWalls nodes walls = Inr rooms"
    and f: "\<And>room. room \<in> set rooms \<Longrightarrow> \<exists>f.
            tracedFace (nodeMapOf nodes) (buildAngleMap (nodeMapOf nodes) (buildAdjacency walls)) f
            \<and> nodeIds room = fnodeIds f \<and> points room = fpoints f"
    by blast
  have "linked walls (nodeIds room ! i) (nodeIds room ! ((i + 1) mod length (nodeIds room)))"
    if "room \<in> set rooms" "i < length (nodeIds room)" for room i
  proof -
    from f [OF that(1)]
    have "rotationCycle (buildAngleMap (nodeMapOf nodes) (buildAdjacency walls)) (nodeIds room)"
      by (auto simp: tracedFace_def)
    from rotationCycle_linked(1) [OF this that(2)] show ?thesis .
  qed
  with r show ?thesis by blast
qed

theorem rooms_follow_walls_witness:
  "buildRoomsFromWalls squareNodes squareWalls =
     Inr [\<lparr>rid = 1, nodeIds = [1, 2, 3, 4],
           points = [\<lparr>px = 0, py = 0\<rparr>, \<lparr>px = 10, py = 0\<rparr>, \<lparr>px = 10, py = 10\<rparr>, \<lparr>px = 0, py = 10\<rparr>]\<rparr>]
   \<and> linked squareWalls 1 2 \<and> linked squareWalls 2 3 \<and> linked squareWalls 3 4
   \<and> linked squareWalls 4 1"
proof -
  from rooms_follow_walls [of squareNodes squareWalls]
  have *: "\<forall>i < 4. linked squareWalls ([1, 2, 3, 4] ! i) ([1, 2, 3, 4] ! ((i + 1) mod 4))"
    by (simp add: square_rooms)
  from * [rule_format, of 0] * [rule_format, of 1] * [rule_format, of 2] * [rule_format, of 3]
  show ?thesis by (simp add: square_rooms)
qed

section \<open>Claim C10\<close>

text \<open>
  C10. For every node list and wall list (walls may name endpoints that are no node),
  every Room returned by \<open>buildRoomsFromWalls\<close> has as many points as node ids, and
  \<open>points[i]\<close> is the position of the node that \<open>nodeMap\<close> holds for \<open>nodeIds[i]\<close>, a
  node of the input list with that id.
\<close>

theorem room_points_are_node_coordinates:
  "\<exists>rooms. buildRoomsFromWalls nodes walls = Inr rooms
     \<and> (\<forall>room \<in> set rooms.
           length (points room) = length (nodeIds room)
           \<and> (\<forall>i < length (nodeIds room). \<exists>node \<in> set nodes.
                  nid node = nodeIds room ! i
                  \<and> nodeMapOf nodes (nodeIds room ! i) = Some node
                  \<and> points room ! i = \<lparr>px = nx node, py = ny node\<rparr>))"
proof -
  let ?nm = "nodeMapOf nodes"
  from buildRoomsFromWalls_faces [of nodes walls]
  obtain rooms where r: "buildRoomsFromWalls nodes walls = Inr rooms"
    and f: "\<And>room. room \<in> set rooms \<Longrightarrow> \<exists>f.
            tracedFace ?nm (buildAngleMap ?nm (buildAdjacency walls)) f
            \<and> nodeIds room = fnodeIds f \<and> points room = fpoints f"
    by blast
  have "length (points room) = length (nodeIds room)
        \<and> (\<forall>i < length (nodeIds room). \<exists>node \<in> set nodes.
               nid node = nodeIds room ! i
               \<and> ?nm (nodeIds room ! i) = Some node
               \<and> points room ! i = \<lparr>px = nx node, py = ny node\<rparr>)"
    if "room \<in> set rooms" for room
  proof -
    from f [OF that]
    have rc: "rotationCycle (buildAngleMap ?nm (buildAdjacency walls)) (nodeIds room)"
      and pts: "points room = nodePoints ?nm (nodeIds room)"
      by (auto simp: tracedFace_def)
    have dom: "\<forall>x \<in> set (nodeIds room). ?nm x \<noteq> None"
      using rotationCycle_linked(2) [OF rc] by (auto simp: in_set_conv_nth)
    have pts': "points room = map (\<lambda>x. \<lparr>px = nx (the (?nm x)), py = ny (the (?nm x))\<rparr>) (nodeIds room)"
      unfolding pts nodePoints_def map_filter_total [OF dom] by (simp add: comp_def)
    have "\<exists>node \<in> set nodes. nid node = nodeIds room ! i
               \<and> ?nm (nodeIds room ! i) = Some node
               \<and> points room ! i = \<lparr>px = nx node, py = ny node\<rparr>"
      if i: "i < length (nodeIds room)" for i
    proof -
      from i have "nodeIds room ! i \<in> set (nodeIds room)" by simp
      with dom obtain node where n: "?nm (nodeIds room ! i) = Some node" by blast
      from nodeMapOf_Some [OF n] n i show ?thesis by (auto simp: pts')
    qed
    with pts' show ?thesis by simp
  qed
  with r show ?thesis by blast
qed

theorem room_points_are_node_coordinates_witness:
  "buildRoomsFromWalls strayNodes strayWalls =
     Inr [\<lparr>rid = 1, nodeIds = [1, 2, 3, 4],
           points = [\<lparr>px = 0, py = 0\<rparr>, \<lparr>px = 10, py = 0\<rparr>, \<lparr>px = 10, py = 10\<rparr>, \<lparr>px = 0, py = 10\<rparr>]\<rparr>]
   \<and> (\<exists>w \<in> set strayWalls. nodeMapOf strayNodes (wb w) = None)
   \<and> (\<exists>node \<in> set strayNodes. nid node = 3 \<and> nodeMapOf strayNodes 3 = Some node
          \<and> \<lparr>px = 10, py = 10\<rparr> = \<lparr>px = nx node, py = ny node\<rparr>)"
proof -
  from room_points_are_node_coordinates [of strayNodes strayWalls]
  have *: "\<forall>i < 4. \<exists>node \<in> set strayNodes. nid node = [1, 2, 3, 4] ! i
              \<and> nodeMapOf strayNodes ([1, 2, 3, 4] ! i) = Some node
              \<and> [\<lparr>px = 0, py = 0\<rparr>, \<lparr>px = 10, py = 0\<rparr>, \<lparr>px = 10, py = 10\<rparr>, \<lparr>px = 0, py = 10\<rparr>] ! i
                   = \<lparr>px = nx node, py = ny node\<rparr>"
    by (simp add: stray_rooms)
  have "\<exists>w \<in> set strayWalls. nodeMapOf strayNodes (wb w) = None"
    by (simp add: strayWalls_def nodeMapOf_def strayNodes_def)
  with * [rule_format, of 2] show ?thesis by (simp add: stray_rooms)
qed

section \<open>Claim C6\<close>

text \<open>
  C6 as stated (every returned cycle has length at least 3 and no repeated node id)
  fails on the plan \<open>pinch\<close>: the face between the two triangles passes twice through
  the node they share, and it is returned as room 1.
\<close>

theorem pinched_room_repeats_a_node:
  "buildRoomsFromWalls pinchNodes pinchWalls =
     Inr [\<lparr>rid = 1, nodeIds = [1, 2, 6, 5, 2, 3, 4],
           points = [\<lparr>px = - 10, py = 0\<rparr>, \<lparr>px = 0, py = 0\<rparr>, \<lparr>px = - 2, py = 2\<rparr>, \<lparr>px = 2, py = 2\<rparr>,
                     \<lparr>px = 0, py = 0\<rparr>, \<lparr>px = 10, py = 0\<rparr>, \<lparr>px = 0, py = 10\<rparr>]\<rparr>,
          \<lparr>rid = 2, nodeIds = [2, 5, 6],
           points = [\<lparr>px = 0, py = 0\<rparr>, \<lparr>px = 2, py = 2\<rparr>, \<lparr>px = - 2, py = 2\<rparr>]\<rparr>]
   \<and> \<not> distinct [1, 2, 6, 5, 2, 3, 4 :: int]"
  by (simp add: pinch_rooms)

text \<open>
  C6, as amended. Every Room returned by \<open>buildRoomsFromWalls\<close> has a \<open>nodeIds\<close> cycle of
  length at least 3 in which no directed edge (an ordered pair of consecutive ids, the
  wrap-around pair included) occurs twice. A node id can occur more than once.
\<close>

theorem room_cycle_has_three_ids_and_distinct_edges:
  "\<exists>rooms. buildRoomsFromWalls nodes walls = Inr rooms
     \<and> (\<forall>room \<in> set rooms. 3 \<le> length (nodeIds room) \<and> distinct (cyclePairs (nodeIds room)))"
proof -
  let ?nm = "nodeMapOf nodes" and ?am = "buildAngleMap (nodeMapOf nodes) (buildAdjacency walls)"
  from buildRoomsFromWalls_faces [of nodes walls]
  obtain rooms where r: "buildRoomsFromWalls nodes walls = Inr rooms"
    and f: "\<And>room. room \<in> set rooms \<Longrightarrow> \<exists>f. tracedFace ?nm ?am f
            \<and> nodeIds room = fnodeIds f \<and> points room = fpoints f"
    by blast
  have "3 \<le> length (nodeIds room) \<and> distinct (cyclePairs (nodeIds room))"
    if "room \<in> set rooms" for room
  proof -
    from f [OF that] have rc: "rotationCycle ?am (nodeIds room)"
      by (auto simp: tracedFace_def)
    then have len: "3 \<le> length (nodeIds room)" by (simp add: rotationCycle_def)
    have neq: "cyclePairs (nodeIds room) ! i \<noteq> cyclePairs (nodeIds room) ! j"
      if "i < j" "j < length (nodeIds room)" for i j
      using rotationCycle_distinct_edges [OF buildAngleMap_ok rc that] that
      by (simp add: cyclePairs_def)
    have "distinct (cyclePairs (nodeIds room))"
      unfolding distinct_conv_nth
    proof (intro allI impI)
      fix i j assume "i < length (cyclePairs (nodeIds room))" "j < length (cyclePairs (nodeIds room))" "i \<noteq> j"
      then have "i < length (nodeIds room)" "j < length (nodeIds room)" "i < j \<or> j < i"
        by (auto simp: cyclePairs_def)
      then show "cyclePairs (nodeIds room) ! i \<noteq> cyclePairs (nodeIds room) ! j"
        using neq [of i j] neq [of j i] by metis
    qed
    with len show ?thesis by simp
  qed
  with r show ?thesis by blast
qed

theorem room_cycle_has_three_ids_and_distinct_edges_witness:
  "3 \<le> length [1, 2, 6, 5, 2, 3, 4 :: int] \<and> distinct (cyclePairs [1, 2, 6, 5, 2, 3, 4])
   \<and> cyclePairs [1, 2, 6, 5, 2, 3, 4] = [(1, 2), (2, 6), (6, 5), (5, 2), (2, 3), (3, 4), (4, 1)]"
proof -
  from room_cycle_has_three_ids_and_distinct_edges [of pinchNodes pinchWalls]
  have "3 \<le> length [1, 2, 6, 5, 2, 3, 4 :: int] \<and> distinct (cyclePairs [1, 2, 6, 5, 2, 3, 4])"
    by (simp add: pinch_rooms)
  moreover have "cyclePairs [1, 2, 6, 5, 2, 3, 4] = [(1, 2), (2, 6), (6, 5), (5, 2), (2, 3), (3, 4), (4, 1)]"
    by (simp add: cyclePairs_def upt_rec)
  ultimately show ?thesis by simp
qed

section \<open>Connected components of the wall graph\<close>

subsection \<open>The adjacency lists are the walls\<close>

lemma map_of_ensureKey:
  "map_of (ensureKey m k) u = (if u = k \<and> map_of m k = None then Some [] else map_of m u)"
  by (auto simp: ensureKey_def hasKey_def map_add_def split: option.splits)

lemma map_of_pushTo:
  "map_of (pushTo m k v) u = (if u = k then map_option (\<lambda>vs. vs @ [v]) (map_of m k) else map_of m u)"
  by (induction m) (auto simp: pushTo_def)

lemma neighborsOf_addWall:
  "set (neighborsOf (addWall adjacency wall) u) =
     set (neighborsOf adjacency u)
     \<union> (if u = wa wall then {wb wall} else {}) \<union> (if u = wb wall then {wa wall} else {})"
  by (auto simp: neighborsOf_def addWall_def Let_def map_of_pushTo map_of_ensureKey
      split: option.splits if_splits)

lemma keys_addWall:
  "dom (map_of (addWall adjacency wall)) = dom (map_of adjacency) \<union> {wa wall, wb wall}"
  by (auto simp: addWall_def Let_def map_of_pushTo map_of_ensureKey dom_def split: if_splits)

lemma neighborsOf_buildAdjacency:
  "set (neighborsOf (buildAdjacency walls) u) = {v. linked walls u v}"
proof (induction walls rule: rev_induct)
  case Nil
  then show ?case by (simp add: buildAdjacency_def neighborsOf_def linked_def)
next
  case (snoc w walls)
  have "buildAdjacency (walls @ [w]) = addWall (buildAdjacency walls) w"
    by (simp add: buildAdjacency_def)
  with snoc show ?case
    by (auto simp: neighborsOf_addWall linked_def)
qed

lemma keys_buildAdjacency:
  "dom (map_of (buildAdjacency walls)) = (\<Union>w \<in> set walls. {wa w, wb w})"
proof (induction walls rule: rev_induct)
  case Nil
  then show ?case by (simp add: buildAdjacency_def)
next
  case (snoc w walls)
  have "buildAdjacency (walls @ [w]) = addWall (buildAdjacency walls) w"
    by (simp add: buildAdjacency_def)
  with snoc show ?case by (auto simp: keys_addWall)
qed

subsection \<open>The labelling is by connected component\<close>

text \<open>The edges of the graph that \<open>adjacency\<close> lists, and the nodes that carry the label
  \<open>c\<close>.\<close>

definition edges :: "(int \<times> int list) list \<Rightarrow> (int \<times> int) set" where
  "edges adjacency = {(u, v). v \<in> set (neighborsOf adjacency u)}"

lemma visitNeighbors_result:
  "visitNeighbors componentByNode componentId queue ns = (componentByNode', queue') \<Longrightarrow>
   componentByNode' = (\<lambda>v. if v \<in> set ns \<and> componentByNode v = None then Some componentId
                              else componentByNode v)
   \<and> set queue' = set queue \<union> {v \<in> set ns. componentByNode v = None}"
proof (induction ns arbitrary: componentByNode queue)
  case Nil
  then show ?case by auto
next
  case (Cons n ns)
  show ?case
  proof (cases "componentByNode n = None")
    case True
    with Cons.prems have "visitNeighbors (componentByNode(n \<mapsto> componentId)) componentId (queue @ [n]) ns
                          = (componentByNode', queue')" by simp
    from Cons.IH [OF this] True show ?thesis by (auto simp: fun_eq_iff)
  next
    case False
    with Cons.prems have "visitNeighbors componentByNode componentId queue ns
                          = (componentByNode', queue')" by simp
    from Cons.IH [OF this] False show ?thesis by (auto simp: fun_eq_iff)
  qed
qed

text \<open>
  The state of one breadth-first search from \<open>s\<close> with the label \<open>c\<close>, started on the
  labelling \<open>old\<close> in which no node carries \<open>c\<close>: old labels stay, new labels are \<open>c\<close> and
  sit on nodes reachable from \<open>s\<close>, the queue holds nodes labelled \<open>c\<close>, every node
  labelled \<open>c\<close> that has left the queue has all its neighbours labelled, and \<open>s\<close> is
  labelled \<open>c\<close>.
\<close>

definition searching ::
    "(int \<times> int list) list \<Rightarrow> (int \<Rightarrow> int option) \<Rightarrow> int \<Rightarrow> int \<Rightarrow> (int \<Rightarrow> int option) \<Rightarrow> int list
     \<Rightarrow> bool" where
  "searching adjacency old s c componentByNode queue =
     ((\<forall>v. old v \<noteq> None \<longrightarrow> componentByNode v = old v)
      \<and> (\<forall>v. old v = None \<longrightarrow> componentByNode v \<noteq> None \<longrightarrow>
              componentByNode v = Some c \<and> (s, v) \<in> (edges adjacency)\<^sup>*)
      \<and> (\<forall>v \<in> set queue. componentByNode v = Some c)
      \<and> (\<forall>u. componentByNode u = Some c \<longrightarrow> u \<notin> set queue \<longrightarrow>
              (\<forall>v \<in> set (neighborsOf adjacency u). componentByNode v \<noteq> None))
      \<and> componentByNode s = Some c)"

lemma bfsLoop_searching:
  assumes "searching adjacency old s c componentByNode queue"
    and "\<forall>v. old v \<noteq> Some c"
  shows "searching adjacency old s c (bfsLoop adjacency componentByNode c queue) []"
  using assms
proof (induction adjacency componentByNode c queue rule: bfsLoop.induct)
  case (1 adjacency componentByNode componentId)
  then show ?case by simp
next
  case (2 adjacency componentByNode componentId current queue)
  obtain cbn' queue' where v: "visitNeighbors componentByNode componentId queue
                                  (neighborsOf adjacency current) = (cbn', queue')"
    by (cases "visitNeighbors componentByNode componentId queue (neighborsOf adjacency current)")
  note r = visitNeighbors_result [OF v]
  let ?ns = "set (neighborsOf adjacency current)"
  from "2.prems"(1) have
    a: "\<And>v. old v \<noteq> None \<Longrightarrow> componentByNode v = old v"
    and b: "\<And>v. old v = None \<Longrightarrow> componentByNode v \<noteq> None \<Longrightarrow>
              componentByNode v = Some componentId \<and> (s, v) \<in> (edges adjacency)\<^sup>*"
    and q: "\<And>v. v \<in> set (current # queue) \<Longrightarrow> componentByNode v = Some componentId"
    and d: "\<And>u v. componentByNode u = Some componentId \<Longrightarrow> u \<notin> set (current # queue) \<Longrightarrow>
              v \<in> set (neighborsOf adjacency u) \<Longrightarrow> componentByNode v \<noteq> None"
    and e: "componentByNode s = Some componentId"
    unfolding searching_def by blast+
  have cur: "componentByNode current = Some componentId" using q [of current] by simp
  have "old current = None" using a [of current] cur "2.prems"(2) by (metis option.distinct(1))
  with b [of current] cur have reach: "(s, current) \<in> (edges adjacency)\<^sup>*" by simp
  have step: "(s, v) \<in> (edges adjacency)\<^sup>*" if "v \<in> ?ns" for v
    using reach that by (auto simp: edges_def intro: rtrancl_into_rtrancl)
  have cbn': "cbn' v = (if v \<in> ?ns \<and> componentByNode v = None then Some componentId
                        else componentByNode v)" for v
    using r by simp
  have queue': "set queue' = set queue \<union> {v \<in> ?ns. componentByNode v = None}"
    using r by simp
  have "searching adjacency old s componentId cbn' queue'"
    unfolding searching_def
  proof (intro conjI allI impI ballI)
    fix v assume "old v \<noteq> None"
    then show "cbn' v = old v" using a [of v] by (auto simp: cbn')
  next
    fix v assume "old v = None" "cbn' v \<noteq> None"
    then show "cbn' v = Some componentId" using b [of v] by (auto simp: cbn')
  next
    fix v assume "old v = None" "cbn' v \<noteq> None"
    then show "(s, v) \<in> (edges adjacency)\<^sup>*" using b [of v] step [of v]
      by (auto simp: cbn' split: if_splits)
  next
    fix v assume "v \<in> set queue'"
    then show "cbn' v = Some componentId" using q [of v] by (auto simp: cbn' queue')
  next
    fix u v assume u: "cbn' u = Some componentId" "u \<notin> set queue'"
      and v: "v \<in> set (neighborsOf adjacency u)"
    from u have lab: "componentByNode u = Some componentId"
      by (auto simp: cbn' queue' split: if_splits)
    from u have nq: "u \<notin> set queue" by (simp add: queue')
    show "cbn' v \<noteq> None"
    proof (cases "u = current")
      case True
      with v show ?thesis by (auto simp: cbn')
    next
      case False
      with nq d [OF lab _ v] show ?thesis by (auto simp: cbn')
    qed
  next
    show "cbn' s = Some componentId" using e by (simp add: cbn')
  qed
  from "2.IH" [OF v [symmetric] this "2.prems"(2)] v show ?case by simp
qed

text \<open>
  The state of the outer loop: the labelled nodes are closed under the edges, two
  labelled nodes carry the same label exactly when one is reachable from the other, and
  every label is below the next one to be given.
\<close>

definition labelled :: "(int \<times> int list) list \<Rightarrow> (int \<Rightarrow> int option) \<Rightarrow> int \<Rightarrow> bool" where
  "labelled adjacency componentByNode componentId =
     ((\<forall>u. componentByNode u \<noteq> None \<longrightarrow>
           (\<forall>v \<in> set (neighborsOf adjacency u). componentByNode v \<noteq> None))
      \<and> (\<forall>u v. componentByNode u \<noteq> None \<longrightarrow> componentByNode v \<noteq> None \<longrightarrow>
             (componentByNode u = componentByNode v) = ((u, v) \<in> (edges adjacency)\<^sup>*))
      \<and> (\<forall>u c. componentByNode u = Some c \<longrightarrow> c < componentId))"

lemma closed_reach:
  assumes closed: "\<And>u v. cbn u \<noteq> None \<Longrightarrow> v \<in> set (neighborsOf adjacency u) \<Longrightarrow> cbn v \<noteq> None"
    and "(u, v) \<in> (edges adjacency)\<^sup>*" "cbn u \<noteq> None"
  shows "cbn v \<noteq> None"
  using assms(2,3)
proof (induction rule: rtrancl_induct)
  case base
  then show ?case .
next
  case (step y z)
  then have "cbn y \<noteq> None" "z \<in> set (neighborsOf adjacency y)" by (simp_all add: edges_def)
  then show ?case by (rule closed)
qed

lemma sym_reach: "sym E \<Longrightarrow> (u, v) \<in> E\<^sup>* \<Longrightarrow> (v, u) \<in> E\<^sup>*"
  by (metis sym_rtrancl symD)

lemma componentsStep_labelled:
  assumes sym: "sym (edges adjacency)"
    and lab: "labelled adjacency componentByNode componentId"
    and step: "componentsStep adjacency (componentByNode, componentId) (n, ns) = (cbn', cid')"
  shows "labelled adjacency cbn' cid'"
    and "cbn' n \<noteq> None"
    and "\<And>v. componentByNode v \<noteq> None \<Longrightarrow> cbn' v = componentByNode v"
    and "\<And>v. cbn' v \<noteq> None \<Longrightarrow> componentByNode v \<noteq> None \<or> (n, v) \<in> (edges adjacency)\<^sup>*"
proof -
  from lab have
    closed: "\<And>u v. componentByNode u \<noteq> None \<Longrightarrow> v \<in> set (neighborsOf adjacency u)
               \<Longrightarrow> componentByNode v \<noteq> None"
    and same: "\<And>u v. componentByNode u \<noteq> None \<Longrightarrow> componentByNode v \<noteq> None \<Longrightarrow>
               (componentByNode u = componentByNode v) = ((u, v) \<in> (edges adjacency)\<^sup>*)"
    and below: "\<And>u c. componentByNode u = Some c \<Longrightarrow> c < componentId"
    unfolding labelled_def by blast+
  have "labelled adjacency cbn' cid' \<and> cbn' n \<noteq> None
        \<and> (\<forall>v. componentByNode v \<noteq> None \<longrightarrow> cbn' v = componentByNode v)
        \<and> (\<forall>v. cbn' v \<noteq> None \<longrightarrow> componentByNode v \<noteq> None \<or> (n, v) \<in> (edges adjacency)\<^sup>*)"
  proof (cases "componentByNode n = None")
    case False
    with step have "cbn' = componentByNode" "cid' = componentId"
      by (simp_all add: componentsStep_def)
    with lab False show ?thesis by simp
  next
    case True
    let ?start = "componentByNode(n \<mapsto> componentId)"
    from True step have r: "cbn' = bfsLoop adjacency ?start componentId [n]"
      and cid': "cid' = componentId + 1"
      by (simp_all add: componentsStep_def)
    have fresh: "\<forall>v. componentByNode v \<noteq> Some componentId"
      using below by fastforce
    have "searching adjacency componentByNode n componentId ?start [n]"
      unfolding searching_def using True fresh by auto
    from bfsLoop_searching [OF this fresh] have
      a: "\<And>v. componentByNode v \<noteq> None \<Longrightarrow> cbn' v = componentByNode v"
      and b: "\<And>v. componentByNode v = None \<Longrightarrow> cbn' v \<noteq> None \<Longrightarrow>
                cbn' v = Some componentId \<and> (n, v) \<in> (edges adjacency)\<^sup>*"
      and d: "\<And>u v. cbn' u = Some componentId \<Longrightarrow> v \<in> set (neighborsOf adjacency u)
                \<Longrightarrow> cbn' v \<noteq> None"
      and e: "cbn' n = Some componentId"
      unfolding searching_def r by simp_all
    have old_reach: "componentByNode v \<noteq> None"
      if "componentByNode u \<noteq> None" "(u, v) \<in> (edges adjacency)\<^sup>*" for u v
      using closed_reach [of componentByNode adjacency u v] closed that by blast
    have "labelled adjacency cbn' cid'"
      unfolding labelled_def
    proof (intro conjI allI impI ballI)
      fix u v assume u: "cbn' u \<noteq> None" and v: "v \<in> set (neighborsOf adjacency u)"
      show "cbn' v \<noteq> None"
      proof (cases "componentByNode u = None")
        case True
        with b [of u] u have "cbn' u = Some componentId" by simp
        from d [OF this v] show ?thesis .
      next
        case False
        from closed [OF False v] a [of v] show ?thesis by simp
      qed
    next
      fix u v assume u: "cbn' u \<noteq> None" and v: "cbn' v \<noteq> None"
      show "(cbn' u = cbn' v) = ((u, v) \<in> (edges adjacency)\<^sup>*)"
      proof (cases "componentByNode u = None"; cases "componentByNode v = None")
        assume ou: "componentByNode u = None" and ov: "componentByNode v = None"
        from b [OF ou u] b [OF ov v] have "cbn' u = cbn' v"
          and "(n, u) \<in> (edges adjacency)\<^sup>*" "(n, v) \<in> (edges adjacency)\<^sup>*" by simp_all
        moreover from this(2) have "(u, n) \<in> (edges adjacency)\<^sup>*" by (rule sym_reach [OF sym])
        ultimately show ?thesis by (metis rtrancl_trans)
      next
        assume ou: "componentByNode u = None" and ov: "componentByNode v \<noteq> None"
        from b [OF ou u] have "cbn' u = Some componentId" by simp
        moreover from a [OF ov] ov below [of v] have "cbn' v \<noteq> Some componentId" by auto
        moreover have "(u, v) \<notin> (edges adjacency)\<^sup>*"
        proof
          assume "(u, v) \<in> (edges adjacency)\<^sup>*"
          then have "(v, u) \<in> (edges adjacency)\<^sup>*" by (rule sym_reach [OF sym])
          from old_reach [OF ov this] ou show False by simp
        qed
        ultimately show ?thesis by simp
      next
        assume ou: "componentByNode u \<noteq> None" and ov: "componentByNode v = None"
        from b [OF ov v] have "cbn' v = Some componentId" by simp
        moreover from a [OF ou] ou below [of u] have "cbn' u \<noteq> Some componentId" by auto
        moreover have "(u, v) \<notin> (edges adjacency)\<^sup>*"
          using old_reach [OF ou] ov by blast
        ultimately show ?thesis by simp
      next
        assume ou: "componentByNode u \<noteq> None" and ov: "componentByNode v \<noteq> None"
        with a [OF ou] a [OF ov] same [OF ou ov] show ?thesis by simp
      qed
    next
      fix u c assume uc: "cbn' u = Some c"
      show "c < cid'"
      proof (cases "componentByNode u = None")
        case True
        with b [of u] uc show ?thesis by (simp add: cid')
      next
        case False
        with a [of u] uc below [of u c] show ?thesis by (simp add: cid')
      qed
    qed
    moreover have "componentByNode v \<noteq> None \<or> (n, v) \<in> (edges adjacency)\<^sup>*"
      if "cbn' v \<noteq> None" for v
      using b [of v] that by blast
    ultimately show ?thesis using e a by simp
  qed
  then show "labelled adjacency cbn' cid'" and "cbn' n \<noteq> None"
    and "\<And>v. componentByNode v \<noteq> None \<Longrightarrow> cbn' v = componentByNode v"
    and "\<And>v. cbn' v \<noteq> None \<Longrightarrow> componentByNode v \<noteq> None \<or> (n, v) \<in> (edges adjacency)\<^sup>*"
    by simp_all
qed

lemma foldl_componentsStep_labelled:
  assumes sym: "sym (edges adjacency)"
  shows "labelled adjacency componentByNode componentId \<Longrightarrow>
         foldl (componentsStep adjacency) (componentByNode, componentId) entries = (cbn', cid') \<Longrightarrow>
         labelled adjacency cbn' cid'
         \<and> (\<forall>v. componentByNode v \<noteq> None \<longrightarrow> cbn' v = componentByNode v)
         \<and> (\<forall>n \<in> fst ` set entries. cbn' n \<noteq> None)
         \<and> (\<forall>v. cbn' v \<noteq> None \<longrightarrow>
                componentByNode v \<noteq> None \<or> (\<exists>n \<in> fst ` set entries. (n, v) \<in> (edges adjacency)\<^sup>*))"
proof (induction entries arbitrary: componentByNode componentId)
  case Nil
  then show ?case by simp
next
  case (Cons entry entries)
  obtain n ns where entry: "entry = (n, ns)" by (cases entry)
  obtain cbn1 cid1 where
    s1: "componentsStep adjacency (componentByNode, componentId) (n, ns) = (cbn1, cid1)"
    by (cases "componentsStep adjacency (componentByNode, componentId) (n, ns)")
  note one = componentsStep_labelled [OF sym Cons.prems(1) s1]
  from Cons.prems(2) have "foldl (componentsStep adjacency) (cbn1, cid1) entries = (cbn', cid')"
    by (simp add: entry s1)
  from Cons.IH [OF one(1) this] have
    l: "labelled adjacency cbn' cid'"
    and keep: "\<And>v. cbn1 v \<noteq> None \<Longrightarrow> cbn' v = cbn1 v"
    and rest: "\<And>m. m \<in> fst ` set entries \<Longrightarrow> cbn' m \<noteq> None"
    and from1: "\<And>v. cbn' v \<noteq> None \<Longrightarrow>
                  cbn1 v \<noteq> None \<or> (\<exists>n \<in> fst ` set entries. (n, v) \<in> (edges adjacency)\<^sup>*)"
    by blast+
  have "cbn' v = componentByNode v" if "componentByNode v \<noteq> None" for v
    using keep [of v] one(3) [OF that] that by simp
  moreover have "cbn' m \<noteq> None" if "m \<in> fst ` set (entry # entries)" for m
  proof (cases "m = n")
    case True
    with keep [of n] one(2) show ?thesis by simp
  next
    case False
    with that entry have "m \<in> fst ` set entries" by auto
    then show ?thesis by (rule rest)
  qed
  moreover have "componentByNode v \<noteq> None
                 \<or> (\<exists>m \<in> fst ` set (entry # entries). (m, v) \<in> (edges adjacency)\<^sup>*)"
    if "cbn' v \<noteq> None" for v
  proof (cases "cbn1 v = None")
    case True
    with from1 [OF that] show ?thesis by auto
  next
    case False
    from one(4) [OF False] show ?thesis by (auto simp: entry)
  qed
  ultimately show ?case using l by blast
qed

text \<open>
  \<open>reachable walls\<close>: two node ids are joined by a chain of walls. \<open>buildComponents\<close>
  labels every end node of a wall, and gives two of them the same label exactly when
  they are joined by a chain of walls: the labels are the connected components of the
  wall graph.
\<close>

definition reachable :: "Wall list \<Rightarrow> int \<Rightarrow> int \<Rightarrow> bool" where
  "reachable walls u v = ((u, v) \<in> {(a, b). linked walls a b}\<^sup>*)"

lemma edges_buildAdjacency: "edges (buildAdjacency walls) = {(a, b). linked walls a b}"
  by (simp add: edges_def neighborsOf_buildAdjacency)

lemma linked_reach:
  assumes "(n, v) \<in> {(a, b). linked walls a b}\<^sup>*" "n \<in> (\<Union>w \<in> set walls. {wa w, wb w})"
  shows "v \<in> (\<Union>w \<in> set walls. {wa w, wb w})"
  using assms by (induction rule: rtrancl_induct) (auto simp: linked_def)

lemma buildComponents_dom:
  "(buildComponents (buildAdjacency walls) v \<noteq> None) = (v \<in> (\<Union>w \<in> set walls. {wa w, wb w}))"
proof
  let ?adj = "buildAdjacency walls"
  assume v: "buildComponents ?adj v \<noteq> None"
  obtain cbn cid where f: "foldl (componentsStep ?adj) (Map.empty, 0) ?adj = (cbn, cid)"
    by (cases "foldl (componentsStep ?adj) (Map.empty, 0) ?adj")
  then have bc: "buildComponents ?adj = cbn" by (simp add: buildComponents_def)
  have sym: "sym (edges ?adj)"
    unfolding edges_buildAdjacency by (auto simp: sym_def linked_def)
  have "labelled ?adj Map.empty 0" by (simp add: labelled_def)
  from foldl_componentsStep_labelled [OF sym this f]
  have "\<And>x. cbn x \<noteq> None \<Longrightarrow> \<exists>n \<in> fst ` set ?adj. (n, x) \<in> (edges ?adj)\<^sup>*"
    by simp
  from this [of v] v bc
  obtain n where n: "n \<in> fst ` set ?adj" "(n, v) \<in> (edges ?adj)\<^sup>*" by blast
  have "fst ` set ?adj = (\<Union>w \<in> set walls. {wa w, wb w})"
    using keys_buildAdjacency [of walls] by (simp add: dom_map_of_conv_image_fst)
  with n linked_reach [of n v walls] show "v \<in> (\<Union>w \<in> set walls. {wa w, wb w})"
    by (simp add: edges_buildAdjacency)
next
  let ?adj = "buildAdjacency walls"
  assume v: "v \<in> (\<Union>w \<in> set walls. {wa w, wb w})"
  obtain cbn cid where f: "foldl (componentsStep ?adj) (Map.empty, 0) ?adj = (cbn, cid)"
    by (cases "foldl (componentsStep ?adj) (Map.empty, 0) ?adj")
  then have bc: "buildComponents ?adj = cbn" by (simp add: buildComponents_def)
  have sym: "sym (edges ?adj)"
    unfolding edges_buildAdjacency by (auto simp: sym_def linked_def)
  have "labelled ?adj Map.empty 0" by (simp add: labelled_def)
  from foldl_componentsStep_labelled [OF sym this f]
  have keys: "\<And>n. n \<in> fst ` set ?adj \<Longrightarrow> cbn n \<noteq> None" by blast
  have "fst ` set ?adj = (\<Union>w \<in> set walls. {wa w, wb w})"
    using keys_buildAdjacency [of walls] by (simp add: dom_map_of_conv_image_fst)
  with v keys show "buildComponents ?adj v \<noteq> None" by (simp add: bc)
qed

lemma buildComponents_connected:
  assumes u: "u \<in> (\<Union>w \<in> set walls. {wa w, wb w})"
    and v: "v \<in> (\<Union>w \<in> set walls. {wa w, wb w})"
  shows "buildComponents (buildAdjacency walls) u \<noteq> None"
    and "(buildComponents (buildAdjacency walls) u = buildComponents (buildAdjacency walls) v)
         = reachable walls u v"
proof -
  let ?adj = "buildAdjacency walls"
  obtain cbn cid where f: "foldl (componentsStep ?adj) (Map.empty, 0) ?adj = (cbn, cid)"
    by (cases "foldl (componentsStep ?adj) (Map.empty, 0) ?adj")
  then have bc: "buildComponents ?adj = cbn" by (simp add: buildComponents_def)
  have sym: "sym (edges ?adj)"
    unfolding edges_buildAdjacency by (auto simp: sym_def linked_def)
  have "labelled ?adj Map.empty 0" by (simp add: labelled_def)
  from foldl_componentsStep_labelled [OF sym this f] have
    l: "labelled ?adj cbn cid" and keys: "\<And>n. n \<in> fst ` set ?adj \<Longrightarrow> cbn n \<noteq> None"
    by blast+
  have "fst ` set ?adj = (\<Union>w \<in> set walls. {wa w, wb w})"
    using keys_buildAdjacency [of walls] by (simp add: dom_map_of_conv_image_fst)
  with u v keys have lu: "cbn u \<noteq> None" and lv: "cbn v \<noteq> None" by blast+
  from lu show "buildComponents ?adj u \<noteq> None" by (simp add: bc)
  from l lu lv have "(cbn u = cbn v) = ((u, v) \<in> (edges ?adj)\<^sup>*)"
    unfolding labelled_def by blast
  then show "(buildComponents ?adj u = buildComponents ?adj v) = reachable walls u v"
    by (simp add: bc reachable_def edges_buildAdjacency)
qed

section \<open>Claims C1 and C5: the winding kept in a component\<close>

definition componentFaces :: "Wall list \<Rightarrow> int \<Rightarrow> Face list \<Rightarrow> Face list" where
  "componentFaces walls c faces =
     filter (\<lambda>f. faceComponent (buildComponents (buildAdjacency walls)) f = c) faces"

text \<open>
  The faces that lie in the connected component of the node \<open>n\<close>: those whose first
  node id is reachable from \<open>n\<close> along walls. (Every node of a traced face is reachable
  from its first, \<open>traced_face_connected\<close>.) For traced faces they are the faces that the
  code groups under the label of \<open>n\<close> (\<open>componentOf_label\<close>).
\<close>

definition componentOf :: "Wall list \<Rightarrow> int \<Rightarrow> Face list \<Rightarrow> Face list" where
  "componentOf walls n fs = filter (\<lambda>f. reachable walls n (hd (fnodeIds f))) fs"

definition positiveFaces :: "Face list \<Rightarrow> Face list" where
  "positiveFaces fs = filter (\<lambda>f. area f > 0) fs"

definition negativeFaces :: "Face list \<Rightarrow> Face list" where
  "negativeFaces fs = filter (\<lambda>f. area f < 0) fs"

text \<open>
  The rule of the specification, completed for the case it leaves open: with as many
  positive as negative faces and equal total unsigned areas, the positive group.
\<close>

definition preferredWinding :: "Face list \<Rightarrow> Face list" where
  "preferredWinding fs =
     (if positiveFaces fs = [] \<or> negativeFaces fs = [] then fs
      else if length (negativeFaces fs) > length (positiveFaces fs) then negativeFaces fs
      else if length (positiveFaces fs) > length (negativeFaces fs) then positiveFaces fs
      else if absSum (negativeFaces fs) < absSum (positiveFaces fs) then negativeFaces fs
      else positiveFaces fs)"

text \<open>
  The rule as the specification words it: the kept group is the one with strictly more
  faces or, with equal counts, the one with the smaller total unsigned area.
\<close>

definition statedChoice :: "Face list \<Rightarrow> Face list \<Rightarrow> Face list \<Rightarrow> bool" where
  "statedChoice kept dropped fs =
     (kept = fs
      \<and> (length kept > length dropped
           \<or> (length kept = length dropped \<and> absSum kept < absSum dropped)))"

lemma keepGroup_preferredWinding: "keepGroup grp = preferredWinding grp"
proof (cases "length grp \<le> 1")
  case True
  then consider "grp = []" | f where "grp = [f]"
    by (cases grp) (auto simp: le_Suc_eq)
  then have "positiveFaces grp = [] \<or> negativeFaces grp = []"
    by cases (auto simp: positiveFaces_def negativeFaces_def)
  with True show ?thesis by (simp add: keepGroup_def preferredWinding_def)
next
  case False
  then show ?thesis
    by (auto simp: keepGroup_def preferredWinding_def positiveFaces_def negativeFaces_def Let_def)
qed

lemma preferredWinding_Nil [simp]: "preferredWinding [] = []"
  by (simp add: preferredWinding_def positiveFaces_def negativeFaces_def)

lemma set_preferredWinding: "set (preferredWinding fs) \<subseteq> set fs"
  by (auto simp: preferredWinding_def positiveFaces_def negativeFaces_def)

lemma filter_concat_component:
  assumes "distinct cs" "\<And>c. set (K c) \<subseteq> {f. fc f = c}"
  shows "filter (\<lambda>f. fc f = c) (concat (map K cs)) = (if c \<in> set cs then K c else [])"
  using assms(1)
proof (induction cs)
  case Nil
  then show ?case by simp
next
  case (Cons a cs)
  have in_c: "filter (\<lambda>f. fc f = c') (K c') = K c'" for c'
    using assms(2) [of c'] by (auto simp: filter_id_conv)
  have out_c: "filter (\<lambda>f. fc f = c) (K a) = []" if "a \<noteq> c"
    using assms(2) [of a] that by (auto simp: filter_empty_conv)
  from Cons.prems have a: "a \<notin> set cs" and d: "distinct cs" by simp_all
  show ?case
  proof (cases "a = c")
    case True
    with a Cons.IH [OF d] show ?thesis by (simp add: in_c)
  next
    case False
    with Cons.IH [OF d] show ?thesis by (simp add: out_c)
  qed
qed

lemma filterFaces_component:
  "filter (\<lambda>f. faceComponent (buildComponents (buildAdjacency walls)) f = c) (filterFaces walls faces)
   = preferredWinding (componentFaces walls c faces)"
proof -
  let ?fc = "faceComponent (buildComponents (buildAdjacency walls))"
  let ?K = "\<lambda>c. preferredWinding (componentFaces walls c faces)"
  have sub: "set (?K c) \<subseteq> {f. ?fc f = c}" for c
    using set_preferredWinding [of "componentFaces walls c faces"]
    by (auto simp: componentFaces_def)
  have eq: "filterFaces walls faces = concat (map ?K (dedupe (map ?fc faces)))"
    unfolding filterFaces_eq by (simp add: keepGroup_preferredWinding componentFaces_def)
  have "componentFaces walls c faces = []" if "c \<notin> ?fc ` set faces"
    using that by (auto simp: componentFaces_def filter_empty_conv)
  then have empty: "?K c = []" if "c \<notin> ?fc ` set faces"
    using that by simp
  show ?thesis
    unfolding eq filter_concat_component [of "dedupe (map ?fc faces)" ?K ?fc, OF distinct_dedupe sub]
    using empty by simp
qed

lemma reachable_sym: "reachable walls u v \<Longrightarrow> reachable walls v u"
  unfolding reachable_def by (rule sym_reach) (auto simp: sym_def linked_def)

lemma endpoint_linked: "linked walls u v \<Longrightarrow> u \<in> (\<Union>w \<in> set walls. {wa w, wb w})"
proof -
  assume "linked walls u v"
  then obtain w where w: "w \<in> set walls" "wa w = u \<or> wb w = u"
    unfolding linked_def by blast
  from w(2) have "u \<in> {wa w, wb w}" by auto
  with w(1) show ?thesis by (rule UN_I)
qed

lemma traced_face_first:
  assumes "tracedFace (nodeMapOf nodes) (buildAngleMap (nodeMapOf nodes) (buildAdjacency walls)) f"
  shows "fnodeIds f \<noteq> []" and "hd (fnodeIds f) \<in> (\<Union>w \<in> set walls. {wa w, wb w})"
proof -
  from assms have rc: "rotationCycle (buildAngleMap (nodeMapOf nodes) (buildAdjacency walls)) (fnodeIds f)"
    by (simp add: tracedFace_def)
  then have len: "3 \<le> length (fnodeIds f)" by (simp add: rotationCycle_def)
  then show ne: "fnodeIds f \<noteq> []" by (cases "fnodeIds f") simp_all
  from ne have "0 < length (fnodeIds f)" by simp
  from rotationCycle_linked(1) [OF rc this]
  have "fnodeIds f ! 0 \<in> (\<Union>w \<in> set walls. {wa w, wb w})"
    by (rule endpoint_linked)
  with ne show "hd (fnodeIds f) \<in> (\<Union>w \<in> set walls. {wa w, wb w})"
    by (simp add: hd_conv_nth)
qed

lemma traced_face_connected:
  assumes "tracedFace (nodeMapOf nodes) (buildAngleMap (nodeMapOf nodes) (buildAdjacency walls)) f"
    and "v \<in> set (fnodeIds f)"
  shows "reachable walls (hd (fnodeIds f)) v"
proof -
  let ?cyc = "fnodeIds f"
  from assms(1) have rc: "rotationCycle (buildAngleMap (nodeMapOf nodes) (buildAdjacency walls)) ?cyc"
    by (simp add: tracedFace_def)
  have "reachable walls (?cyc ! 0) (?cyc ! i)" if "i < length ?cyc" for i
    using that
  proof (induction i)
    case 0
    then show ?case by (simp add: reachable_def)
  next
    case (Suc i)
    then have i: "i < length ?cyc" by simp
    from rotationCycle_linked(1) [OF rc i] Suc.prems
    have "linked walls (?cyc ! i) (?cyc ! Suc i)" by simp
    with Suc.IH [OF i] show ?case
      unfolding reachable_def by (auto intro: rtrancl_into_rtrancl)
  qed
  moreover from assms(2) obtain i where "i < length ?cyc" "v = ?cyc ! i"
    by (auto simp: in_set_conv_nth)
  moreover from assms(2) have "hd ?cyc = ?cyc ! 0" by (cases ?cyc) auto
  ultimately show ?thesis by simp
qed

lemma componentOf_label:
  assumes traced: "\<forall>f \<in> set fs. tracedFace (nodeMapOf nodes)
                      (buildAngleMap (nodeMapOf nodes) (buildAdjacency walls)) f"
  shows "componentOf walls n fs =
           (case buildComponents (buildAdjacency walls) n of
              None \<Rightarrow> []
            | Some c \<Rightarrow> componentFaces walls c fs)"
proof (cases "buildComponents (buildAdjacency walls) n")
  case None
  then have n: "n \<notin> (\<Union>w \<in> set walls. {wa w, wb w})"
    using buildComponents_dom [of walls n] by simp
  have "\<not> reachable walls n (hd (fnodeIds f))" if "f \<in> set fs" for f
  proof
    assume "reachable walls n (hd (fnodeIds f))"
    then have "(hd (fnodeIds f), n) \<in> {(a, b). linked walls a b}\<^sup>*"
      using reachable_sym [of walls n "hd (fnodeIds f)"] by (simp add: reachable_def)
    from linked_reach [OF this] traced_face_first(2) [of nodes walls f] traced that n
    show False by blast
  qed
  then have "componentOf walls n fs = []"
    by (simp add: componentOf_def filter_empty_conv)
  with None show ?thesis by simp
next
  case (Some c)
  then have n: "n \<in> (\<Union>w \<in> set walls. {wa w, wb w})"
    using buildComponents_dom [of walls n] by simp
  have "reachable walls n (hd (fnodeIds f))
        = (faceComponent (buildComponents (buildAdjacency walls)) f = c)" if "f \<in> set fs" for f
  proof -
    from traced that have tf: "tracedFace (nodeMapOf nodes)
        (buildAngleMap (nodeMapOf nodes) (buildAdjacency walls)) f" by blast
    note first = traced_face_first [OF tf]
    from buildComponents_connected(1) [OF first(2) n]
    obtain c' where c': "buildComponents (buildAdjacency walls) (hd (fnodeIds f)) = Some c'"
      by blast
    from first(1) c' have "faceComponent (buildComponents (buildAdjacency walls)) f = c'"
      by (cases "fnodeIds f") (simp_all add: faceComponent_def)
    moreover from buildComponents_connected(2) [OF first(2) n] c' Some
    have "(c' = c) = reachable walls (hd (fnodeIds f)) n" by simp
    moreover have "reachable walls (hd (fnodeIds f)) n = reachable walls n (hd (fnodeIds f))"
      using reachable_sym by blast
    ultimately show ?thesis by simp
  qed
  then have "componentOf walls n fs = componentFaces walls c fs"
    unfolding componentOf_def componentFaces_def by (intro filter_cong) simp_all
  with Some show ?thesis by simp
qed

lemma reachable_linked: "linked walls u v \<Longrightarrow> reachable walls u v"
  by (simp add: reachable_def r_into_rtrancl)

lemma reachable_refl [simp]: "reachable walls u u"
  by (simp add: reachable_def)

lemma faceComponent_cong:
  "fnodeIds g = fnodeIds f \<Longrightarrow> faceComponent componentByNode g = faceComponent componentByNode f"
  by (simp add: faceComponent_def)

definition squareInner :: Face where
  "squareInner = \<lparr>fnodeIds = [1, 2, 3, 4],
      fpoints = [\<lparr>px = 0, py = 0\<rparr>, \<lparr>px = 10, py = 0\<rparr>, \<lparr>px = 10, py = 10\<rparr>, \<lparr>px = 0, py = 10\<rparr>],
      area = 100\<rparr>"

definition squareMirror :: Face where
  "squareMirror = \<lparr>fnodeIds = [2, 1, 4, 3],
      fpoints = [\<lparr>px = 10, py = 0\<rparr>, \<lparr>px = 0, py = 0\<rparr>, \<lparr>px = 0, py = 10\<rparr>, \<lparr>px = 10, py = 10\<rparr>],
      area = - 100\<rparr>"

definition annexSquare :: Face where
  "annexSquare = \<lparr>fnodeIds = [1, 2, 3, 4],
      fpoints = [\<lparr>px = 0, py = 0\<rparr>, \<lparr>px = 10, py = 0\<rparr>, \<lparr>px = 10, py = 10\<rparr>, \<lparr>px = 0, py = 10\<rparr>],
      area = 100\<rparr>"

definition annexOuter :: Face where
  "annexOuter = \<lparr>fnodeIds = [2, 1, 4, 3, 6, 5],
      fpoints = [\<lparr>px = 10, py = 0\<rparr>, \<lparr>px = 0, py = 0\<rparr>, \<lparr>px = 0, py = 10\<rparr>, \<lparr>px = 10, py = 10\<rparr>,
                 \<lparr>px = 20, py = 10\<rparr>, \<lparr>px = 20, py = 0\<rparr>],
      area = - 200\<rparr>"

lemma annex_groups:
  "componentOf annexWalls 1 [annexSquare, annexOuter] = [annexSquare, annexOuter]"
  "positiveFaces [annexSquare, annexOuter] = [annexSquare]"
  "negativeFaces [annexSquare, annexOuter] = [annexOuter]"
proof -
  have "linked annexWalls 1 2" by (simp add: linked_def annexWalls_def)
  then have "reachable annexWalls 1 2" by (rule reachable_linked)
  then show "componentOf annexWalls 1 [annexSquare, annexOuter] = [annexSquare, annexOuter]"
    by (simp add: componentOf_def annexSquare_def annexOuter_def)
qed (simp_all add: annexSquare_def annexOuter_def positiveFaces_def negativeFaces_def)

lemma square_group:
  "componentOf squareWalls 1 [squareInner, squareMirror] = [squareInner, squareMirror]"
proof -
  have "linked squareWalls 1 2" by (simp add: linked_def squareWalls_def)
  then have "reachable squareWalls 1 2" by (rule reachable_linked)
  then show ?thesis by (simp add: componentOf_def squareInner_def squareMirror_def)
qed

lemma tie_drops_larger_area_label:
  assumes faces: "traceFaces nodes walls = Inr faces"
    and pos: "positiveFaces (componentFaces walls c faces) \<noteq> []"
    and neg: "negativeFaces (componentFaces walls c faces) \<noteq> []"
    and tie: "length (positiveFaces (componentFaces walls c faces))
              = length (negativeFaces (componentFaces walls c faces))"
  shows "\<exists>rooms. buildRoomsFromWalls nodes walls = Inr rooms
           \<and> (\<forall>f \<in> set (if absSum (negativeFaces (componentFaces walls c faces))
                              < absSum (positiveFaces (componentFaces walls c faces))
                           then positiveFaces (componentFaces walls c faces)
                           else negativeFaces (componentFaces walls c faces)).
                 \<forall>room \<in> set rooms. nodeIds room \<noteq> fnodeIds f \<or> points room \<noteq> fpoints f)"
proof -
  let ?nm = "nodeMapOf nodes" and ?am = "buildAngleMap (nodeMapOf nodes) (buildAdjacency walls)"
  let ?grp = "componentFaces walls c faces"
  let ?P = "positiveFaces ?grp" and ?N = "negativeFaces ?grp"
  let ?kept = "if absSum ?N < absSum ?P then ?N else ?P"
  let ?dropped = "if absSum ?N < absSum ?P then ?P else ?N"
  let ?filtered = "filterFaces walls faces"
  from faces traceFaces_inv [of nodes walls]
  have traced: "\<forall>f \<in> set faces. tracedFace ?nm ?am f" by simp
  from pos have ne: "faces \<noteq> []"
    by (auto simp: positiveFaces_def componentFaces_def)
  with faces have rooms: "buildRoomsFromWalls nodes walls = Inr (toRooms ?filtered)"
    by (simp add: buildRoomsFromWalls_def)
  have kept: "componentFaces walls c ?filtered = ?kept"
    using filterFaces_component [of walls c faces] pos neg tie
    by (simp add: componentFaces_def preferredWinding_def)
  have "nodeIds room \<noteq> fnodeIds f \<or> points room \<noteq> fpoints f"
    if f: "f \<in> set ?dropped" and room: "room \<in> set (toRooms ?filtered)" for f room
  proof (rule ccontr)
    assume "\<not> (nodeIds room \<noteq> fnodeIds f \<or> points room \<noteq> fpoints f)"
    then have same: "nodeIds room = fnodeIds f" "points room = fpoints f" by simp_all
    from in_toRooms [OF room] obtain g where g: "g \<in> set ?filtered"
      "nodeIds room = fnodeIds g" "points room = fpoints g" by blast
    from g(1) set_filterFaces [of walls faces] have gf: "g \<in> set faces" by blast
    from f have ff: "f \<in> set faces" and fc: "f \<in> set ?grp"
      by (auto simp: positiveFaces_def negativeFaces_def componentFaces_def split: if_splits)
    from traced gf ff have "area g = shoelace (fpoints g) / 2" "area f = shoelace (fpoints f) / 2"
      by (auto simp: tracedFace_def)
    with same g have area: "area g = area f" by simp
    from fc same g have "faceComponent (buildComponents (buildAdjacency walls)) g = c"
      using faceComponent_cong [of g f] by (simp add: componentFaces_def)
    with g(1) have "g \<in> set (componentFaces walls c ?filtered)"
      by (simp add: componentFaces_def)
    with kept have "g \<in> set ?kept" by simp
    with f area show False
      by (auto simp: positiveFaces_def negativeFaces_def split: if_splits)
  qed
  with rooms show ?thesis by blast
qed

section \<open>Claim C1\<close>

text \<open>
  C1 as stated names, for equal face counts, the group with the smaller total unsigned
  area. On the single square both groups have one face and the same total area, 100:
  the stated rule names neither group, and the code keeps the positive one.
\<close>

theorem square_double_tie_keeps_positive_group:
  "traceFaces squareNodes squareWalls = Inr [squareInner, squareMirror]
   \<and> componentOf squareWalls 1 [squareInner, squareMirror] = [squareInner, squareMirror]
   \<and> positiveFaces [squareInner, squareMirror] = [squareInner]
   \<and> negativeFaces [squareInner, squareMirror] = [squareMirror]
   \<and> buildRoomsFromWalls squareNodes squareWalls = Inr (toRooms [squareInner])
   \<and> \<not> statedChoice [squareInner] [squareMirror] [squareInner]
   \<and> \<not> statedChoice [squareMirror] [squareInner] [squareInner]"
  by (simp add: square_group)
     (simp add: square_faces square_rooms squareInner_def squareMirror_def toRooms_def
      positiveFaces_def negativeFaces_def statedChoice_def absSum_def)

text \<open>
  C1, as amended. For every node list and wall list, and for the connected component
  of every node, the faces of that component among the kept faces (the faces the
  returned Rooms are made of, in order) are exactly: all its traced faces when they all
  have one winding; otherwise the winding group with strictly more faces; with equal
  counts the group with the smaller total unsigned area; and with equal totals as well,
  the positive group.
\<close>

theorem preferred_winding_kept_per_component:
  "\<exists>faces filtered.
      traceFaces nodes walls = Inr faces
      \<and> buildRoomsFromWalls nodes walls = Inr (toRooms filtered)
      \<and> (\<forall>n. componentOf walls n filtered = preferredWinding (componentOf walls n faces))"
proof -
  let ?traced = "tracedFace (nodeMapOf nodes) (buildAngleMap (nodeMapOf nodes) (buildAdjacency walls))"
  obtain faces where f: "traceFaces nodes walls = Inr faces"
    and traced: "\<forall>f \<in> set faces. ?traced f"
    using traceFaces_inv by blast
  define filtered where "filtered = (if faces = [] then [] else filterFaces walls faces)"
  have rooms: "buildRoomsFromWalls nodes walls = Inr (toRooms filtered)"
    using f by (simp add: buildRoomsFromWalls_def filtered_def toRooms_def)
  have sub: "set filtered \<subseteq> set faces"
    using set_filterFaces [of walls faces] by (auto simp: filtered_def)
  with traced have traced': "\<forall>f \<in> set filtered. ?traced f" by blast
  have label: "componentFaces walls c filtered = preferredWinding (componentFaces walls c faces)" for c
  proof (cases "faces = []")
    case True
    then show ?thesis by (simp add: filtered_def componentFaces_def)
  next
    case False
    then show ?thesis
      using filterFaces_component [of walls c faces] by (simp add: filtered_def componentFaces_def)
  qed
  have "componentOf walls n filtered = preferredWinding (componentOf walls n faces)" for n
    unfolding componentOf_label [OF traced] componentOf_label [OF traced']
    by (cases "buildComponents (buildAdjacency walls) n") (simp_all add: label)
  with f rooms show ?thesis by blast
qed

section \<open>Claim C5\<close>

text \<open>
  C5 as stated (with equal face counts the group with the smaller total unsigned area
  is dropped) fails on the plan \<open>annex\<close>: its component has one positive face of area
  100 and one negative face of area 200, and the returned room is the positive face.
\<close>

theorem annex_tie_keeps_smaller_area_group:
  "traceFaces annexNodes annexWalls = Inr [annexSquare, annexOuter]
   \<and> componentOf annexWalls 1 [annexSquare, annexOuter] = [annexSquare, annexOuter]
   \<and> positiveFaces [annexSquare, annexOuter] = [annexSquare]
   \<and> negativeFaces [annexSquare, annexOuter] = [annexOuter]
   \<and> absSum [annexSquare] < absSum [annexOuter]
   \<and> buildRoomsFromWalls annexNodes annexWalls =
       Inr [\<lparr>rid = 1, nodeIds = fnodeIds annexSquare, points = fpoints annexSquare\<rparr>]"
  by (simp add: annex_faces annex_rooms annex_groups)
     (simp add: annexSquare_def annexOuter_def absSum_def)

text \<open>
  C5, as amended. In a component whose traced faces have both windings in equal
  numbers, the group with the larger total unsigned area is dropped, and with equal
  totals the negative group: no returned Room has the node ids and points of a face of
  the dropped group.
\<close>

theorem tie_drops_larger_area_group:
  assumes faces: "traceFaces nodes walls = Inr faces"
    and pos: "positiveFaces (componentOf walls n faces) \<noteq> []"
    and neg: "negativeFaces (componentOf walls n faces) \<noteq> []"
    and tie: "length (positiveFaces (componentOf walls n faces))
              = length (negativeFaces (componentOf walls n faces))"
  shows "\<exists>rooms. buildRoomsFromWalls nodes walls = Inr rooms
           \<and> (\<forall>f \<in> set (if absSum (negativeFaces (componentOf walls n faces))
                              < absSum (positiveFaces (componentOf walls n faces))
                           then positiveFaces (componentOf walls n faces)
                           else negativeFaces (componentOf walls n faces)).
                 \<forall>room \<in> set rooms. nodeIds room \<noteq> fnodeIds f \<or> points room \<noteq> fpoints f)"
proof -
  from faces traceFaces_inv [of nodes walls]
  have traced: "\<forall>f \<in> set faces. tracedFace (nodeMapOf nodes)
                   (buildAngleMap (nodeMapOf nodes) (buildAdjacency walls)) f" by simp
  from pos obtain c where c: "buildComponents (buildAdjacency walls) n = Some c"
    unfolding componentOf_label [OF traced]
    by (cases "buildComponents (buildAdjacency walls) n") (simp_all add: positiveFaces_def)
  then have eq: "componentOf walls n faces = componentFaces walls c faces"
    by (simp add: componentOf_label [OF traced])
  from tie_drops_larger_area_label [OF faces pos [unfolded eq] neg [unfolded eq] tie [unfolded eq]]
  show ?thesis unfolding eq .
qed

theorem tie_drops_larger_area_group_witness:
  "traceFaces annexNodes annexWalls = Inr [annexSquare, annexOuter]
   \<and> positiveFaces (componentOf annexWalls 1 [annexSquare, annexOuter]) = [annexSquare]
   \<and> negativeFaces (componentOf annexWalls 1 [annexSquare, annexOuter]) = [annexOuter]
   \<and> \<not> absSum [annexOuter] < absSum [annexSquare]
   \<and> (\<exists>rooms. buildRoomsFromWalls annexNodes annexWalls = Inr rooms
         \<and> (\<forall>room \<in> set rooms. nodeIds room \<noteq> fnodeIds annexOuter
                                  \<or> points room \<noteq> fpoints annexOuter))"
proof -
  have f: "traceFaces annexNodes annexWalls = Inr [annexSquare, annexOuter]"
    by (simp add: annex_faces annexSquare_def annexOuter_def)
  have a: "\<not> absSum [annexOuter] < absSum [annexSquare]"
    by (simp add: annexSquare_def annexOuter_def absSum_def)
  from tie_drops_larger_area_group [OF f, of 1] a
  show ?thesis by (simp add: f annex_groups)
qed

section \<open>Claim C4\<close>

lemma hypot_axis [simp]: "hypot x 0 = \<bar>x\<bar>" "hypot 0 y = \<bar>y\<bar>"
  by (simp_all add: hypot_def)

lemma shoelace5:
  "shoelace [a, b, c, d, e] =
     (px a * py b - px b * py a) + (px b * py c - px c * py b) + (px c * py d - px d * py c)
     + (px d * py e - px e * py d) + (px e * py a - px a * py e)"
  by (simp add: shoelace_def crossTerm_def upt_rec)

lemma upt_values:
  "[0..<3] = [0, 1, 2]" "[0..<4] = [0, 1, 2, 3]" "[0..<5] = [0, 1, 2, 3, 4]"
  "[0..<6] = [0, 1, 2, 3, 4, 5]" "[0..<8] = [0, 1, 2, 3, 4, 5, 6, 7]"
  by code_simp+

definition notchedSide :: "Vec2 list" where
  "notchedSide = [\<lparr>px = 0, py = 0\<rparr>, \<lparr>px = 10, py = 0\<rparr>, \<lparr>px = 20, py = 0\<rparr>,
                  \<lparr>px = 20, py = 10\<rparr>, \<lparr>px = 0, py = 10\<rparr>]"

lemma notchedSide_corners:
  "offsetCorner notchedSide [0, 0, 0, 0, 0] 1 0 = Inr \<lparr>px = 0, py = 0\<rparr>"
  "offsetCorner notchedSide [0, 0, 0, 0, 0] 1 (Suc 0) = Inr \<lparr>px = 5, py = 0\<rparr>"
  "offsetCorner notchedSide [0, 0, 0, 0, 0] 1 2 = Inr \<lparr>px = 20, py = 0\<rparr>"
  "offsetCorner notchedSide [0, 0, 0, 0, 0] 1 3 = Inr \<lparr>px = 20, py = 10\<rparr>"
  "offsetCorner notchedSide [0, 0, 0, 0, 0] 1 4 = Inr \<lparr>px = 0, py = 10\<rparr>"
  by (simp_all add: offsetCorner_def getEdge_def elem_def notchedSide_def lineIntersection_def
      EPS_def Let_def)

definition cornerCross :: "Vec2 list \<Rightarrow> nat \<Rightarrow> real" where
  "cornerCross pts i =
     (let a = pts ! ((i + length pts - 1) mod length pts);
          b = pts ! i;
          c = pts ! ((i + 1) mod length pts)
      in (px b - px a) * (py c - py b) - (py b - py a) * (px c - px b))"

lemma getEdge_zero:
  assumes "j < length pts" "offsets ! j = 0"
  shows "\<exists>nrm. getEdge pts offsets sign j =
           Inr \<lparr>ep = pts ! j, en = nrm, eo = 0, ea = pts ! j,
                ed = \<lparr>px = px (pts ! ((j + 1) mod length pts)) - px (pts ! j),
                       py = py (pts ! ((j + 1) mod length pts)) - py (pts ! j)\<rparr>\<rparr>"
  using assms by (simp add: getEdge_def Let_def)

lemma lineIntersection_at_end:
  assumes "\<not> \<bar>px d1 * py d2 - py d1 * px d2\<bar> < EPS"
    and "px p2 = px p1 + px d1" "py p2 = py p1 + py d1"
  shows "lineIntersection p1 d1 p2 d2 = Some \<lparr>px = px p2, py = py p2\<rparr>"
proof -
  let ?cross = "px d1 * py d2 - py d1 * px d2"
  have "0 < EPS" by (simp add: EPS_def)
  with assms(1) have nz: "?cross \<noteq> 0" by auto
  have "((px p2 - px p1) * py d2 - (py p2 - py p1) * px d2) / ?cross = 1"
    using nz by (simp add: assms(2,3))
  then show ?thesis
    using assms(1) unfolding lineIntersection_def Let_def
    by (simp add: assms(2,3))
qed

lemma lineIntersection_parallel:
  "\<bar>px d1 * py d2 - py d1 * px d2\<bar> < EPS \<Longrightarrow> lineIntersection p1 d1 p2 d2 = None"
  by (simp add: lineIntersection_def)

lemma offsetCorner_zero:
  assumes i: "i < length pts"
    and z: "offsets ! i = 0" "offsets ! ((i + length pts - 1) mod length pts) = 0"
  shows "offsetCorner pts offsets sign i =
           Inr (if \<bar>cornerCross pts i\<bar> < EPS
                then \<lparr>px = (px (pts ! ((i + length pts - 1) mod length pts)) + px (pts ! i)) / 2,
                      py = (py (pts ! ((i + length pts - 1) mod length pts)) + py (pts ! i)) / 2\<rparr>
                else pts ! i)"
proof -
  let ?n = "length pts" and ?j = "(i + length pts - 1) mod length pts"
  have j: "?j < ?n" and nj: "(?j + 1) mod ?n = i"
    using pred_mod [OF i] by auto
  let ?d1 = "\<lparr>px = px (pts ! i) - px (pts ! ?j), py = py (pts ! i) - py (pts ! ?j)\<rparr>"
  let ?d2 = "\<lparr>px = px (pts ! ((i + 1) mod ?n)) - px (pts ! i),
              py = py (pts ! ((i + 1) mod ?n)) - py (pts ! i)\<rparr>"
  obtain n1 where e1: "getEdge pts offsets sign ?j =
           Inr \<lparr>ep = pts ! ?j, en = n1, eo = 0, ea = pts ! ?j, ed = ?d1\<rparr>"
    using getEdge_zero [OF j z(2), of sign] unfolding nj by blast
  obtain n2 where e2: "getEdge pts offsets sign i =
           Inr \<lparr>ep = pts ! i, en = n2, eo = 0, ea = pts ! i, ed = ?d2\<rparr>"
    using getEdge_zero [OF i z(1), of sign] by blast
  have cc: "cornerCross pts i = px ?d1 * py ?d2 - py ?d1 * px ?d2"
    by (simp add: cornerCross_def Let_def)
  show ?thesis
  proof (cases "\<bar>cornerCross pts i\<bar> < EPS")
    case True
    then have "lineIntersection (pts ! ?j) ?d1 (pts ! i) ?d2 = None"
      unfolding cc by (rule lineIntersection_parallel)
    with True show ?thesis
      unfolding offsetCorner_def e1 e2 by (simp add: Let_def)
  next
    case False
    then have "lineIntersection (pts ! ?j) ?d1 (pts ! i) ?d2
               = Some \<lparr>px = px (pts ! i), py = py (pts ! i)\<rparr>"
      unfolding cc by (rule lineIntersection_at_end) simp_all
    with False show ?thesis
      unfolding offsetCorner_def e1 e2 by simp
  qed
qed

text \<open>
  C4 (with all offsets zero \<open>offsetPolygon\<close> returns the points unchanged) holds at every
  corner whose two edges are not within \<open>EPS\<close> of parallel (\<open>offsetCorner_zero\<close>). Where
  they are, the fallback takes the midpoint of the start points of the two offset
  edges, and the start point of the previous edge is the previous vertex: a vertex
  lying on a straight side is moved to the middle of the side before it. Here the
  vertex \<open>(10, 0)\<close> of a simple pentagon comes back as \<open>(5, 0)\<close>.
\<close>

theorem offsetPolygon_zero_offsets_move_collinear_vertex:
  "offsetPolygon notchedSide [0, 0, 0, 0, 0] =
     Inr (Some [\<lparr>px = 0, py = 0\<rparr>, \<lparr>px = 5, py = 0\<rparr>, \<lparr>px = 20, py = 0\<rparr>,
                \<lparr>px = 20, py = 10\<rparr>, \<lparr>px = 0, py = 10\<rparr>])
   \<and> notchedSide ! 1 = \<lparr>px = 10, py = 0\<rparr>"
proof -
  have "shoelace notchedSide = 400" by (simp add: notchedSide_def shoelace5)
  moreover have "length notchedSide = 5" by (simp add: notchedSide_def)
  ultimately show ?thesis
    by (simp add: offsetPolygon_def polygonAreaSigned_value notchedSide_corners upt_values)
       (simp add: notchedSide_def)
qed

section \<open>Claim C7\<close>

text \<open>
  \<open>buildWallEdgeMap\<close> of planMetrics.ts: the walls of every edge key, sorted by id.
\<close>

definition buildWallEdgeMap :: "Wall list \<Rightarrow> WallEdgeMap" where
  "buildWallEdgeMap walls =
     (let m = foldl (\<lambda>m wall.
                       let key = edgeKey (wa wall) (wb wall)
                       in m(key \<mapsto> (case m key of None \<Rightarrow> [] | Some ws \<Rightarrow> ws) @ [wall]))
                    Map.empty walls
      in (\<lambda>key. map_option (sortBy (\<lambda>a b. real_of_int (wid a - wid b))) (m key)))"

text \<open>
  The plan \<open>duplex\<close>: a square room of 10 by 10 pixels with walls 0.2 m thick, and a room
  of 30 by 10 pixels beside it that shares wall 2 with it and has thinner walls
  otherwise. At 50 pixels per meter the inner polygon of the square room is a single
  point.
\<close>

definition duplexNodes :: "NodePoint list" where
  "duplexNodes =
     [\<lparr>nid = 1, nx = 0, ny = 0\<rparr>,
      \<lparr>nid = 2, nx = 10, ny = 0\<rparr>,
      \<lparr>nid = 3, nx = 10, ny = 10\<rparr>,
      \<lparr>nid = 4, nx = 0, ny = 10\<rparr>,
      \<lparr>nid = 5, nx = 40, ny = 0\<rparr>,
      \<lparr>nid = 6, nx = 40, ny = 10\<rparr>]"

definition duplexWalls :: "Wall list" where
  "duplexWalls =
     [\<lparr>wid = 1, wa = 1, wb = 2, thickness = 1 / 5\<rparr>,
      \<lparr>wid = 2, wa = 2, wb = 3, thickness = 1 / 5\<rparr>,
      \<lparr>wid = 3, wa = 3, wb = 4, thickness = 1 / 5\<rparr>,
      \<lparr>wid = 4, wa = 4, wb = 1, thickness = 1 / 5\<rparr>,
      \<lparr>wid = 5, wa = 2, wb = 5, thickness = 1 / 25\<rparr>,
      \<lparr>wid = 6, wa = 5, wb = 6, thickness = 1 / 25\<rparr>,
      \<lparr>wid = 7, wa = 6, wb = 3, thickness = 1 / 25\<rparr>]"

definition duplexAngleMap :: "int \<Rightarrow> int list option" where
  "duplexAngleMap = [1 \<mapsto> [2, 4], 2 \<mapsto> [5, 3, 1], 3 \<mapsto> [2, 6, 4], 4 \<mapsto> [1, 3], 5 \<mapsto> [6, 2], 6 \<mapsto> [5, 3]]"

lemma duplex_adjacency:
  "buildAdjacency duplexWalls = [(1, [2, 4]), (2, [1, 3, 5]), (3, [2, 4, 6]), (4, [3, 1]), (5, [2, 6]), (6, [5, 3])]"
  by (simp add: buildAdjacency_def duplexWalls_def addWall_def ensureKey_def hasKey_def pushTo_def)

lemma duplex_angleMap:
  "buildAngleMap (nodeMapOf duplexNodes) (buildAdjacency duplexWalls) = duplexAngleMap"
  unfolding duplex_adjacency duplexAngleMap_def
  by (simp add: buildAngleMap_def nodeMapOf_def duplexNodes_def dedupe_def sortBy_def compareAngle_def
      atan2_values)

lemma duplex_trace_1_2:
  "traceLoop duplexAngleMap 1 2 0 1 2 [1] [] =
     (True, [1, 2, 3, 4, 1],
      [(1, 2), (2, 3), (3, 4), (4, 1)])"
  by (simp add: traceLoop.simps duplexAngleMap_def nextNeighbor_def)

lemma duplex_trace_2_1:
  "traceLoop duplexAngleMap 2 1 0 2 1 [2] [] =
     (True, [2, 1, 4, 3, 6, 5, 2],
      [(2, 1), (1, 4), (4, 3), (3, 6), (6, 5), (5, 2)])"
  by (simp add: traceLoop.simps duplexAngleMap_def nextNeighbor_def)

lemma duplex_trace_3_2:
  "traceLoop duplexAngleMap 3 2 0 3 2 [3] [] =
     (True, [3, 2, 5, 6, 3],
      [(3, 2), (2, 5), (5, 6), (6, 3)])"
  by (simp add: traceLoop.simps duplexAngleMap_def nextNeighbor_def)

lemmas duplex_traces = duplex_trace_1_2 duplex_trace_2_1 duplex_trace_3_2

lemma duplex_nodeMap:
  "nodeMapOf duplexNodes 1 = Some \<lparr>nid = 1, nx = 0, ny = 0\<rparr>"
  "nodeMapOf duplexNodes 2 = Some \<lparr>nid = 2, nx = 10, ny = 0\<rparr>"
  "nodeMapOf duplexNodes 3 = Some \<lparr>nid = 3, nx = 10, ny = 10\<rparr>"
  "nodeMapOf duplexNodes 4 = Some \<lparr>nid = 4, nx = 0, ny = 10\<rparr>"
  "nodeMapOf duplexNodes 5 = Some \<lparr>nid = 5, nx = 40, ny = 0\<rparr>"
  "nodeMapOf duplexNodes 6 = Some \<lparr>nid = 6, nx = 40, ny = 10\<rparr>"
  by (simp_all add: nodeMapOf_def duplexNodes_def)

lemma duplex_faces:
  "traceFaces duplexNodes duplexWalls =
     Inr [\<lparr>fnodeIds = [1, 2, 3, 4],
      fpoints = [\<lparr>px = 0, py = 0\<rparr>, \<lparr>px = 10, py = 0\<rparr>, \<lparr>px = 10, py = 10\<rparr>, \<lparr>px = 0, py = 10\<rparr>],
      area = 100\<rparr>,
          \<lparr>fnodeIds = [2, 1, 4, 3, 6, 5],
      fpoints = [\<lparr>px = 10, py = 0\<rparr>, \<lparr>px = 0, py = 0\<rparr>, \<lparr>px = 0, py = 10\<rparr>, \<lparr>px = 10, py = 10\<rparr>, \<lparr>px = 40, py = 10\<rparr>, \<lparr>px = 40, py = 0\<rparr>],
      area = - 400\<rparr>,
          \<lparr>fnodeIds = [3, 2, 5, 6],
      fpoints = [\<lparr>px = 10, py = 10\<rparr>, \<lparr>px = 10, py = 0\<rparr>, \<lparr>px = 40, py = 0\<rparr>, \<lparr>px = 40, py = 10\<rparr>],
      area = 300\<rparr>]"
  unfolding traceFaces_def Let_def duplex_angleMap
  by (simp add: duplexWalls_def traceFrom_def duplex_traces List.map_filter_def duplex_nodeMap
      signedArea_value shoelace_values)

lemma duplex_components:
  "buildComponents (buildAdjacency duplexWalls) = [1 \<mapsto> 0, 2 \<mapsto> 0, 4 \<mapsto> 0, 3 \<mapsto> 0, 5 \<mapsto> 0, 6 \<mapsto> 0]"
  unfolding duplex_adjacency
  by (simp add: buildComponents_def componentsStep_def neighborsOf_def)

lemma duplex_filtered:
  "filterFaces duplexWalls
     [\<lparr>fnodeIds = [1, 2, 3, 4],
      fpoints = [\<lparr>px = 0, py = 0\<rparr>, \<lparr>px = 10, py = 0\<rparr>, \<lparr>px = 10, py = 10\<rparr>, \<lparr>px = 0, py = 10\<rparr>],
      area = 100\<rparr>,
      \<lparr>fnodeIds = [2, 1, 4, 3, 6, 5],
      fpoints = [\<lparr>px = 10, py = 0\<rparr>, \<lparr>px = 0, py = 0\<rparr>, \<lparr>px = 0, py = 10\<rparr>, \<lparr>px = 10, py = 10\<rparr>, \<lparr>px = 40, py = 10\<rparr>, \<lparr>px = 40, py = 0\<rparr>],
      area = - 400\<rparr>,
      \<lparr>fnodeIds = [3, 2, 5, 6],
      fpoints = [\<lparr>px = 10, py = 10\<rparr>, \<lparr>px = 10, py = 0\<rparr>, \<lparr>px = 40, py = 0\<rparr>, \<lparr>px = 40, py = 10\<rparr>],
      area = 300\<rparr>] =
     [\<lparr>fnodeIds = [1, 2, 3, 4],
      fpoints = [\<lparr>px = 0, py = 0\<rparr>, \<lparr>px = 10, py = 0\<rparr>, \<lparr>px = 10, py = 10\<rparr>, \<lparr>px = 0, py = 10\<rparr>],
      area = 100\<rparr>,
      \<lparr>fnodeIds = [3, 2, 5, 6],
      fpoints = [\<lparr>px = 10, py = 10\<rparr>, \<lparr>px = 10, py = 0\<rparr>, \<lparr>px = 40, py = 0\<rparr>, \<lparr>px = 40, py = 10\<rparr>],
      area = 300\<rparr>]"
  unfolding filterFaces_def Let_def duplex_components
  by (simp add: groupFaces_def faceComponent_def ensureKey_def hasKey_def pushTo_def
      keepGroup_def absSum_def)

lemma duplex_rooms:
  "buildRoomsFromWalls duplexNodes duplexWalls =
     Inr [\<lparr>rid = 1, nodeIds = [1, 2, 3, 4],
      points = [\<lparr>px = 0, py = 0\<rparr>, \<lparr>px = 10, py = 0\<rparr>, \<lparr>px = 10, py = 10\<rparr>, \<lparr>px = 0, py = 10\<rparr>]\<rparr>,
          \<lparr>rid = 2, nodeIds = [3, 2, 5, 6],
      points = [\<lparr>px = 10, py = 10\<rparr>, \<lparr>px = 10, py = 0\<rparr>, \<lparr>px = 40, py = 0\<rparr>, \<lparr>px = 40, py = 10\<rparr>]\<rparr>]"
  by (simp add: buildRoomsFromWalls_def duplex_faces duplex_filtered toRooms_def)

lemma duplex_walls_at:
  "firstWall (buildWallEdgeMap duplexWalls) 1 2 = Some \<lparr>wid = 1, wa = 1, wb = 2, thickness = 1 / 5\<rparr>"
  "firstWall (buildWallEdgeMap duplexWalls) 2 3 = Some \<lparr>wid = 2, wa = 2, wb = 3, thickness = 1 / 5\<rparr>"
  "firstWall (buildWallEdgeMap duplexWalls) 3 4 = Some \<lparr>wid = 3, wa = 3, wb = 4, thickness = 1 / 5\<rparr>"
  "firstWall (buildWallEdgeMap duplexWalls) 4 1 = Some \<lparr>wid = 4, wa = 4, wb = 1, thickness = 1 / 5\<rparr>"
  "firstWall (buildWallEdgeMap duplexWalls) 3 2 = Some \<lparr>wid = 2, wa = 2, wb = 3, thickness = 1 / 5\<rparr>"
  "firstWall (buildWallEdgeMap duplexWalls) 2 5 = Some \<lparr>wid = 5, wa = 2, wb = 5, thickness = 1 / 25\<rparr>"
  "firstWall (buildWallEdgeMap duplexWalls) 5 6 = Some \<lparr>wid = 6, wa = 5, wb = 6, thickness = 1 / 25\<rparr>"
  "firstWall (buildWallEdgeMap duplexWalls) 6 3 = Some \<lparr>wid = 7, wa = 6, wb = 3, thickness = 1 / 25\<rparr>"
  by (simp_all add: firstWall_def buildWallEdgeMap_def edgeKey_def duplexWalls_def sortBy_def)

definition duplexA :: Room where
  "duplexA = \<lparr>rid = 1, nodeIds = [1, 2, 3, 4],
       points = [\<lparr>px = 0, py = 0\<rparr>, \<lparr>px = 10, py = 0\<rparr>, \<lparr>px = 10, py = 10\<rparr>, \<lparr>px = 0, py = 10\<rparr>]\<rparr>"

definition duplexB :: Room where
  "duplexB = \<lparr>rid = 2, nodeIds = [3, 2, 5, 6],
       points = [\<lparr>px = 10, py = 10\<rparr>, \<lparr>px = 10, py = 0\<rparr>, \<lparr>px = 40, py = 0\<rparr>, \<lparr>px = 40, py = 10\<rparr>]\<rparr>"

lemma duplexA_offsets:
  "getRoomOffsets duplexA (buildWallEdgeMap duplexWalls) (1 / 5) 50 = [5, 5, 5, 5]"
  by (simp add: getRoomOffsets_def duplexA_def duplex_walls_at upt_values)

lemma duplexB_offsets:
  "getRoomOffsets duplexB (buildWallEdgeMap duplexWalls) (1 / 5) 50 = [5, 1, 1, 1]"
  by (simp add: getRoomOffsets_def duplexB_def duplex_walls_at upt_values)

lemma duplexA_corners:
  "offsetCorner (points duplexA) [5, 5, 5, 5] 1 0 = Inr \<lparr>px = 5, py = 5\<rparr>"
  "offsetCorner (points duplexA) [5, 5, 5, 5] 1 (Suc 0) = Inr \<lparr>px = 5, py = 5\<rparr>"
  "offsetCorner (points duplexA) [5, 5, 5, 5] 1 2 = Inr \<lparr>px = 5, py = 5\<rparr>"
  "offsetCorner (points duplexA) [5, 5, 5, 5] 1 3 = Inr \<lparr>px = 5, py = 5\<rparr>"
  by (simp_all add: offsetCorner_def getEdge_def elem_def duplexA_def lineIntersection_def
      EPS_def Let_def)

lemma duplexB_corners:
  "offsetCorner (points duplexB) [5, 1, 1, 1] 1 0 = Inr \<lparr>px = 15, py = 9\<rparr>"
  "offsetCorner (points duplexB) [5, 1, 1, 1] 1 (Suc 0) = Inr \<lparr>px = 15, py = 1\<rparr>"
  "offsetCorner (points duplexB) [5, 1, 1, 1] 1 2 = Inr \<lparr>px = 39, py = 1\<rparr>"
  "offsetCorner (points duplexB) [5, 1, 1, 1] 1 3 = Inr \<lparr>px = 39, py = 9\<rparr>"
  by (simp_all add: offsetCorner_def getEdge_def elem_def duplexB_def lineIntersection_def
      EPS_def Let_def)

lemma duplexA_inner:
  "getRoomInnerPolygon duplexA (buildWallEdgeMap duplexWalls) (1 / 5) 50 =
     Inr (Some [\<lparr>px = 5, py = 5\<rparr>, \<lparr>px = 5, py = 5\<rparr>, \<lparr>px = 5, py = 5\<rparr>, \<lparr>px = 5, py = 5\<rparr>])"
proof -
  have "shoelace (points duplexA) = 200" by (simp add: duplexA_def shoelace_values)
  moreover have "length (points duplexA) = 4" by (simp add: duplexA_def)
  ultimately show ?thesis
    by (simp add: getRoomInnerPolygon_def duplexA_offsets offsetPolygon_def polygonAreaSigned_value
        duplexA_corners upt_values)
qed

lemma duplexB_inner:
  "getRoomInnerPolygon duplexB (buildWallEdgeMap duplexWalls) (1 / 5) 50 =
     Inr (Some [\<lparr>px = 15, py = 9\<rparr>, \<lparr>px = 15, py = 1\<rparr>, \<lparr>px = 39, py = 1\<rparr>, \<lparr>px = 39, py = 9\<rparr>])"
proof -
  have "shoelace (points duplexB) = 600" by (simp add: duplexB_def shoelace_values)
  moreover have "length (points duplexB) = 4" by (simp add: duplexB_def)
  ultimately show ?thesis
    by (simp add: getRoomInnerPolygon_def duplexB_offsets offsetPolygon_def polygonAreaSigned_value
        duplexB_corners upt_values)
qed

text \<open>The wall id found for edge \<open>i\<close> of a room, and the length of edge \<open>i\<close> of its inner
  polygon in meters.\<close>

definition edgeWallId :: "Room \<Rightarrow> WallEdgeMap \<Rightarrow> nat \<Rightarrow> int option" where
  "edgeWallId room wallEdgeMap i =
     map_option wid (firstWall wallEdgeMap (nodeIds room ! i)
                        (nodeIds room ! ((i + 1) mod length (nodeIds room))))"

definition innerEdgeLength :: "Vec2 list \<Rightarrow> real \<Rightarrow> nat \<Rightarrow> real" where
  "innerEdgeLength inner scale i = distance (inner ! i) (inner ! ((i + 1) mod length inner)) / scale"

text \<open>
  The inner-edge lengths that a room contributes for the wall id \<open>w\<close>, in edge order:
  none when its inner polygon is not computed, and the lengths that all the rooms of a
  list contribute, in room order.
\<close>

definition roomEdgeLengths :: "Room \<Rightarrow> WallEdgeMap \<Rightarrow> real \<Rightarrow> real \<Rightarrow> int \<Rightarrow> real list" where
  "roomEdgeLengths room wallEdgeMap defaultWallThickness scale w =
     (case getRoomInnerPolygon room wallEdgeMap defaultWallThickness scale of
        Inr (Some inner) \<Rightarrow>
          if length inner \<noteq> length (points room) then []
          else map (innerEdgeLength inner scale)
                 (filter (\<lambda>i. edgeWallId room wallEdgeMap i = Some w) [0..<length inner])
      | _ \<Rightarrow> [])"

definition borderingLengths :: "Room list \<Rightarrow> WallEdgeMap \<Rightarrow> real \<Rightarrow> real \<Rightarrow> int \<Rightarrow> real list" where
  "borderingLengths rooms wallEdgeMap defaultWallThickness scale w =
     concat (map (\<lambda>room. roomEdgeLengths room wallEdgeMap defaultWallThickness scale w) rooms)"

text \<open>What one \<open>map.set(wall.id, existing ? Math.min(existing, length) : length)\<close> stores.\<close>

definition keepLength :: "real option \<Rightarrow> real \<Rightarrow> real option" where
  "keepLength existing len =
     Some (case existing of None \<Rightarrow> len | Some e \<Rightarrow> if e \<noteq> 0 then min e len else len)"

lemma innerLengthLoop_fold:
  "\<forall>i \<in> set is. i < length inner \<Longrightarrow>
   \<exists>m'. innerLengthLoop room wallEdgeMap scale inner is m = Inr m'
        \<and> (\<forall>w. m' w = foldl keepLength (m w)
                          (map (innerEdgeLength inner scale)
                             (filter (\<lambda>i. edgeWallId room wallEdgeMap i = Some w) is)))"
proof (induction "is" arbitrary: m)
  case Nil
  then show ?case by simp
next
  case (Cons i "is")
  then have i: "i < length inner" and rest: "\<forall>i \<in> set is. i < length inner" by simp_all
  show ?case
  proof (cases "firstWall wallEdgeMap (nodeIds room ! i)
                  (nodeIds room ! ((i + 1) mod length (nodeIds room)))")
    case None
    then have "edgeWallId room wallEdgeMap i = None" by (simp add: edgeWallId_def)
    with None Cons.IH [OF rest, of m] show ?thesis by (simp add: Let_def)
  next
    case (Some wall)
    let ?m1 = "m(wid wall := keepLength (m (wid wall)) (innerEdgeLength inner scale i))"
    from Some have id: "edgeWallId room wallEdgeMap i = Some (wid wall)"
      by (simp add: edgeWallId_def)
    have step: "innerLengthLoop room wallEdgeMap scale inner (i # is) m
                = innerLengthLoop room wallEdgeMap scale inner is ?m1"
      using Some i by (simp add: Let_def innerEdgeLength_def keepLength_def)
    from Cons.IH [OF rest, of ?m1] obtain m' where
      m': "innerLengthLoop room wallEdgeMap scale inner is ?m1 = Inr m'"
      "\<And>w. m' w = foldl keepLength (?m1 w)
                          (map (innerEdgeLength inner scale)
                             (filter (\<lambda>i. edgeWallId room wallEdgeMap i = Some w) is))"
      by blast
    have "m' w = foldl keepLength (m w)
                          (map (innerEdgeLength inner scale)
                             (filter (\<lambda>i. edgeWallId room wallEdgeMap i = Some w) (i # is)))" for w
      unfolding m'(2) [of w] using id
      by (cases "w = wid wall") simp_all
    with step m'(1) show ?thesis by simp
  qed
qed

lemma innerLengthRooms_fold:
  "\<exists>m'. innerLengthRooms rooms wallEdgeMap d scale m = Inr m'
        \<and> (\<forall>w. m' w = foldl keepLength (m w) (borderingLengths rooms wallEdgeMap d scale w))"
proof (induction rooms arbitrary: m)
  case Nil
  then show ?case by (simp add: borderingLengths_def)
next
  case (Cons room rooms)
  obtain v where v: "getRoomInnerPolygon room wallEdgeMap d scale = Inr v"
    using getRoomInnerPolygon_ok by blast
  show ?case
  proof (cases "\<exists>inner. v = Some inner \<and> length inner = length (points room)")
    case False
    then have "roomEdgeLengths room wallEdgeMap d scale w = []" for w
      by (cases v) (auto simp: roomEdgeLengths_def v)
    moreover from False
    have "innerLengthRooms (room # rooms) wallEdgeMap d scale m
          = innerLengthRooms rooms wallEdgeMap d scale m"
      by (cases v) (auto simp: v)
    ultimately show ?thesis using Cons.IH [of m] by (simp add: borderingLengths_def)
  next
    case True
    then obtain inner where inner: "v = Some inner" "length inner = length (points room)" by blast
    from innerLengthLoop_fold [of "[0..<length inner]" inner room wallEdgeMap scale m]
    obtain m1 where m1: "innerLengthLoop room wallEdgeMap scale inner [0..<length inner] m = Inr m1"
      "\<And>w. m1 w = foldl keepLength (m w) (roomEdgeLengths room wallEdgeMap d scale w)"
      by (auto simp: roomEdgeLengths_def v inner)
    from Cons.IH [of m1] obtain m' where
      m': "innerLengthRooms rooms wallEdgeMap d scale m1 = Inr m'"
      "\<And>w. m' w = foldl keepLength (m1 w) (borderingLengths rooms wallEdgeMap d scale w)"
      by blast
    from m1(1) inner(2)
    have "innerLengthLoop room wallEdgeMap scale inner [0..<length (points room)] m = Inr m1"
      by simp
    then have "innerLengthRooms (room # rooms) wallEdgeMap d scale m = Inr m'"
      by (simp add: v inner m'(1))
    moreover have "m' w = foldl keepLength (m w) (borderingLengths (room # rooms) wallEdgeMap d scale w)"
      for w
      by (simp add: m'(2) m1(2) borderingLengths_def)
    ultimately show ?thesis by blast
  qed
qed

lemma getInnerLengthByWallId_fold:
  "\<exists>res. getInnerLengthByWallId rooms wallEdgeMap d scale = Inr res
         \<and> (\<forall>w. res w = foldl keepLength None (borderingLengths rooms wallEdgeMap d scale w))"
  using innerLengthRooms_fold [of rooms wallEdgeMap d scale Map.empty]
  by (simp add: getInnerLengthByWallId_def)

lemma foldl_keepLength_Some:
  "e \<noteq> 0 \<Longrightarrow> 0 \<notin> set ls \<Longrightarrow> foldl keepLength (Some e) ls = Some (Min (insert e (set ls)))"
proof (induction ls arbitrary: e)
  case Nil
  then show ?case by simp
next
  case (Cons l ls)
  then have "min e l \<noteq> 0" by (auto simp: min_def)
  with Cons have "foldl keepLength (Some (min e l)) ls = Some (Min (insert (min e l) (set ls)))"
    by simp
  moreover have "Min (insert (min e l) (set ls)) = Min (insert e (set (l # ls)))"
    by (cases "ls = []") (auto simp: min.assoc)
  moreover have "keepLength (Some e) l = Some (min e l)"
    using Cons.prems by (simp add: keepLength_def)
  ultimately show ?case by simp
qed

lemma foldl_keepLength_None:
  "0 \<notin> set ls \<Longrightarrow> foldl keepLength None ls = (if ls = [] then None else Some (Min (set ls)))"
proof (cases ls)
  case Nil
  then show ?thesis by simp
next
  case (Cons l ls')
  assume "0 \<notin> set ls"
  with Cons have "l \<noteq> 0" "0 \<notin> set ls'" by auto
  moreover have "keepLength None l = Some l" by (simp add: keepLength_def)
  ultimately show ?thesis
    using foldl_keepLength_Some [of l ls'] Cons by simp
qed

lemma getInnerLengthByWallId_min:
  assumes "0 \<notin> set (borderingLengths rooms wallEdgeMap d scale w)"
  shows "\<exists>res. getInnerLengthByWallId rooms wallEdgeMap d scale = Inr res
           \<and> res w = (if borderingLengths rooms wallEdgeMap d scale w = [] then None
                      else Some (Min (set (borderingLengths rooms wallEdgeMap d scale w))))"
  using getInnerLengthByWallId_fold [of rooms wallEdgeMap d scale]
    foldl_keepLength_None [OF assms] by auto

lemma duplexA_lengths:
  "roomEdgeLengths duplexA (buildWallEdgeMap duplexWalls) (1 / 5) 50 2 = [0]"
  by (simp add: roomEdgeLengths_def duplexA_inner upt_values edgeWallId_def)
     (simp add: duplexA_def duplex_walls_at innerEdgeLength_def distance_def)

lemma duplexB_lengths:
  "roomEdgeLengths duplexB (buildWallEdgeMap duplexWalls) (1 / 5) 50 2 = [4 / 25]"
  by (simp add: roomEdgeLengths_def duplexB_inner upt_values edgeWallId_def)
     (simp add: duplexB_def duplex_walls_at innerEdgeLength_def distance_def)

text \<open>
  C7 (the map holds, for a wall id, the minimum of the inner-edge lengths of the rooms
  that border it) holds whenever none of these lengths is 0
  (\<open>getInnerLengthByWallId_min\<close>). A stored length of 0 is taken for no entry by the
  test \<open>existing ? ... : ...\<close> and is replaced by the next length: on the plan \<open>duplex\<close>,
  wall 2 has inner length 0 in the first room and 4/25 in the second, and the map
  holds 4/25.
\<close>

theorem zero_inner_length_is_overwritten:
  "buildRoomsFromWalls duplexNodes duplexWalls = Inr [duplexA, duplexB]
   \<and> borderingLengths [duplexA, duplexB] (buildWallEdgeMap duplexWalls) (1 / 5) 50 2 = [0, 4 / 25]
   \<and> (\<exists>res. getInnerLengthByWallId [duplexA, duplexB] (buildWallEdgeMap duplexWalls) (1 / 5) 50
                = Inr res
              \<and> res 2 = Some (4 / 25))"
proof -
  have b: "borderingLengths [duplexA, duplexB] (buildWallEdgeMap duplexWalls) (1 / 5) 50 2
           = [0, 4 / 25]"
    by (simp add: borderingLengths_def duplexA_lengths duplexB_lengths)
  from getInnerLengthByWallId_fold [of "[duplexA, duplexB]" "buildWallEdgeMap duplexWalls" "1 / 5" 50]
  obtain res where res:
    "getInnerLengthByWallId [duplexA, duplexB] (buildWallEdgeMap duplexWalls) (1 / 5) 50 = Inr res"
    "res 2 = foldl keepLength None
               (borderingLengths [duplexA, duplexB] (buildWallEdgeMap duplexWalls) (1 / 5) 50 2)"
    by blast
  from res(2) have "res 2 = Some (4 / 25)"
    unfolding b by (simp add: keepLength_def)
  with res(1) b show ?thesis
    by (auto simp: duplex_rooms duplexA_def duplexB_def)
qed

section \<open>Claim C9\<close>

subsection \<open>The corner where two offset edges meet\<close>

lemma hypot_square: "hypot x y * hypot x y = x * x + y * y"
proof -
  have "0 \<le> x * x + y * y" by simp
  then show ?thesis by (simp add: hypot_def)
qed

lemma hypot_pos: "x \<noteq> 0 \<or> y \<noteq> 0 \<Longrightarrow> 0 < hypot x y"
proof -
  assume "x \<noteq> 0 \<or> y \<noteq> 0"
  then have "0 < x * x + y * y"
    by (metis add_pos_nonneg add_nonneg_pos zero_le_square not_real_square_gt_zero)
  then show ?thesis by (simp add: hypot_def)
qed

lemma cross_nonzero:
  fixes a b x y :: real
  assumes "a * y - b * x \<noteq> 0"
  shows "0 < hypot a b" and "0 < hypot x y"
proof -
  from assms have "a \<noteq> 0 \<or> b \<noteq> 0" by auto
  then show "0 < hypot a b" by (rule hypot_pos)
  from assms have "x \<noteq> 0 \<or> y \<noteq> 0" by auto
  then show "0 < hypot x y" by (rule hypot_pos)
qed

text \<open>
  The parameter \<open>t\<close> that \<open>lineIntersection\<close> computes for the offset lines of two
  consecutive edges \<open>(a, b)\<close> and \<open>(x, y)\<close> of lengths \<open>P\<close> and \<open>L\<close>, and the point it
  returns, relative to the corner.
\<close>

lemma meet_parameter:
  fixes a b x y s P L o1 o2 :: real
  assumes P: "P \<noteq> 0" and L: "L \<noteq> 0" and LL: "L * L = x * x + y * y"
  shows "(a + (s * - y / L) * o2 - (s * - b / P) * o1) * y
         - (b + (s * x / L) * o2 - (s * a / P) * o1) * x
         = (a * y - b * x) + s * ((a * x + b * y) * o1 / P - L * o2)"
proof -
  have "(a + (s * - y / L) * o2 - (s * - b / P) * o1) * y
         - (b + (s * x / L) * o2 - (s * a / P) * o1) * x
        = (a * y - b * x) + s * (a * x + b * y) * o1 / P - s * o2 * ((x * x + y * y) / L)"
    using P L by (simp add: field_simps)
  also have "(x * x + y * y) / L = L" using L LL by (simp add: field_simps)
  finally show ?thesis by (simp add: algebra_simps)
qed

lemma meet_point:
  fixes a b x y s P L o1 o2 c :: real
  assumes P: "P \<noteq> 0" and c: "c \<noteq> 0" and PP: "P * P = a * a + b * b"
    and cdef: "c = a * y - b * x"
  shows "(s * - b / P) * o1 + a * (1 + s * ((a * x + b * y) * o1 / P - L * o2) / c)
         = a + (s / c) * (o1 * P * x - o2 * L * a)"
    and "(s * a / P) * o1 + b * (1 + s * ((a * x + b * y) * o1 / P - L * o2) / c)
         = b + (s / c) * (o1 * P * y - o2 * L * b)"
proof -
  have x': "a * (a * x + b * y) - b * c = x * (P * P)"
    unfolding PP cdef by (simp add: algebra_simps)
  have y': "b * (a * x + b * y) + a * c = y * (P * P)"
    unfolding PP cdef by (simp add: algebra_simps)
  have "(s * - b / P) * o1 + a * (1 + s * ((a * x + b * y) * o1 / P - L * o2) / c)
        = a + (s / c) * (o1 * ((a * (a * x + b * y) - b * c) / P) - o2 * L * a)"
    using P c by (simp add: field_simps)
  also have "(a * (a * x + b * y) - b * c) / P = P * x"
    unfolding x' using P by simp
  finally show "(s * - b / P) * o1 + a * (1 + s * ((a * x + b * y) * o1 / P - L * o2) / c)
         = a + (s / c) * (o1 * P * x - o2 * L * a)" by (simp add: mult.assoc)
  have "(s * a / P) * o1 + b * (1 + s * ((a * x + b * y) * o1 / P - L * o2) / c)
        = b + (s / c) * (o1 * ((b * (a * x + b * y) + a * c) / P) - o2 * L * b)"
    using P c by (simp add: field_simps)
  also have "(b * (a * x + b * y) + a * c) / P = P * y"
    unfolding y' using P by simp
  finally show "(s * a / P) * o1 + b * (1 + s * ((a * x + b * y) * o1 / P - L * o2) / c)
         = b + (s / c) * (o1 * P * y - o2 * L * b)" by (simp add: mult.assoc)
qed

text \<open>
  The difference of the two corners at the ends of the edge \<open>(x, y)\<close> of length \<open>L\<close>,
  between the edges \<open>(a, b)\<close> and \<open>(p, q)\<close>: the edge itself, scaled.
\<close>

lemma inner_edge_component:
  fixes a b x y p q s L P N o1 o2 o3 c1 c2 :: real
  assumes L: "L \<noteq> 0" and c1: "c1 \<noteq> 0" and c2: "c2 \<noteq> 0" and LL: "L * L = x * x + y * y"
    and c1def: "c1 = a * y - b * x" and c2def: "c2 = x * q - y * p"
  shows "(s / c1) * (o1 * P * x - o2 * L * a) - (x + (s / c2) * (o2 * L * p - o3 * N * x))
         = x * ((s * ((o3 * N * L - o2 * (x * p + y * q)) / c2
                      + (o1 * P * L - o2 * (a * x + b * y)) / c1) - L) / L)"
    and "(s / c1) * (o1 * P * y - o2 * L * b) - (y + (s / c2) * (o2 * L * q - o3 * N * y))
         = y * ((s * ((o3 * N * L - o2 * (x * p + y * q)) / c2
                      + (o1 * P * L - o2 * (a * x + b * y)) / c1) - L) / L)"
proof -
  have kx: "(L * L) * (a * c2 + p * c1) = x * ((x * p + y * q) * c1 + (a * x + b * y) * c2)"
    unfolding LL c1def c2def by (simp add: algebra_simps)
  have ky: "(L * L) * (b * c2 + q * c1) = y * ((x * p + y * q) * c1 + (a * x + b * y) * c2)"
    unfolding LL c1def c2def by (simp add: algebra_simps)
  have "(s / c1) * (o1 * P * x - o2 * L * a) - (x + (s / c2) * (o2 * L * p - o3 * N * x))
        - x * ((s * ((o3 * N * L - o2 * (x * p + y * q)) / c2
                      + (o1 * P * L - o2 * (a * x + b * y)) / c1) - L) / L)
        = s * o2 * (x * ((x * p + y * q) * c1 + (a * x + b * y) * c2) - (L * L) * (a * c2 + p * c1))
            / (L * c1 * c2)"
    using L c1 c2 by (simp add: field_simps)
  also have "\<dots> = 0" unfolding kx by simp
  finally show "(s / c1) * (o1 * P * x - o2 * L * a) - (x + (s / c2) * (o2 * L * p - o3 * N * x))
         = x * ((s * ((o3 * N * L - o2 * (x * p + y * q)) / c2
                      + (o1 * P * L - o2 * (a * x + b * y)) / c1) - L) / L)" by simp
  have "(s / c1) * (o1 * P * y - o2 * L * b) - (y + (s / c2) * (o2 * L * q - o3 * N * y))
        - y * ((s * ((o3 * N * L - o2 * (x * p + y * q)) / c2
                      + (o1 * P * L - o2 * (a * x + b * y)) / c1) - L) / L)
        = s * o2 * (y * ((x * p + y * q) * c1 + (a * x + b * y) * c2) - (L * L) * (b * c2 + q * c1))
            / (L * c1 * c2)"
    using L c1 c2 by (simp add: field_simps)
  also have "\<dots> = 0" unfolding ky by simp
  finally show "(s / c1) * (o1 * P * y - o2 * L * b) - (y + (s / c2) * (o2 * L * q - o3 * N * y))
         = y * ((s * ((o3 * N * L - o2 * (x * p + y * q)) / c2
                      + (o1 * P * L - o2 * (a * x + b * y)) / c1) - L) / L)" by simp
qed

definition cornerDot :: "Vec2 list \<Rightarrow> nat \<Rightarrow> real" where
  "cornerDot pts i =
     (let a = pts ! ((i + length pts - 1) mod length pts);
          b = pts ! i;
          c = pts ! ((i + 1) mod length pts)
      in (px b - px a) * (px c - px b) + (py b - py a) * (py c - py b))"

text \<open>
  The corner that \<open>offsetPolygon\<close> pushes at vertex \<open>v\<close> when the two edges there are not
  within \<open>EPS\<close> of parallel: with \<open>(a, b)\<close> the edge that ends at \<open>v\<close>, \<open>(x, y)\<close> the edge
  that starts there and \<open>c\<close> their cross product, the vertex moved by
  \<open>sign / c\<close> times (offset of the first edge times its length times \<open>(x, y)\<close>, minus
  offset of the second edge times its length times \<open>(a, b)\<close>).
\<close>

definition cornerPoint :: "Vec2 list \<Rightarrow> real list \<Rightarrow> real \<Rightarrow> nat \<Rightarrow> Vec2" where
  "cornerPoint pts offsets sign v =
     (let p = (v + length pts - 1) mod length pts;
          a = px (pts ! v) - px (pts ! p);
          b = py (pts ! v) - py (pts ! p);
          x = px (pts ! ((v + 1) mod length pts)) - px (pts ! v);
          y = py (pts ! ((v + 1) mod length pts)) - py (pts ! v);
          c = a * y - b * x
      in \<lparr>px = px (pts ! v)
                 + (sign / c) * (offsets ! p * hypot a b * x - offsets ! v * hypot x y * a),
          py = py (pts ! v)
                 + (sign / c) * (offsets ! p * hypot a b * y - offsets ! v * hypot x y * b)\<rparr>)"

lemma getEdge_value:
  assumes "q < length pts"
    and "dx = px (pts ! ((q + 1) mod length pts)) - px (pts ! q)"
    and "dy = py (pts ! ((q + 1) mod length pts)) - py (pts ! q)"
    and "0 < hypot dx dy"
  shows "getEdge pts offsets sign q =
     Inr \<lparr>ep = \<lparr>px = px (pts ! q) + (sign * - dy / hypot dx dy) * (offsets ! q),
                 py = py (pts ! q) + (sign * dx / hypot dx dy) * (offsets ! q)\<rparr>,
          en = \<lparr>px = sign * - dy / hypot dx dy, py = sign * dx / hypot dx dy\<rparr>,
          eo = offsets ! q, ea = pts ! q, ed = \<lparr>px = dx, py = dy\<rparr>\<rparr>"
proof -
  have 1: "elem pts q = Inr (pts ! q)" using assms(1) by simp
  have 2: "elem pts ((q + 1) mod length pts) = Inr (pts ! ((q + 1) mod length pts))"
    using assms(1) by simp
  have nz: "hypot dx dy \<noteq> 0" using assms(4) by simp
  show ?thesis
    unfolding getEdge_def 1 2 bind_e_Inr Let_def assms(2,3) [symmetric]
    using nz by simp
qed

lemma offsetCorner_meet:
  assumes v: "v < length pts"
    and meet: "EPS \<le> \<bar>cornerCross pts v\<bar>"
  shows "offsetCorner pts offsets sign v = Inr (cornerPoint pts offsets sign v)"
proof -
  let ?n = "length pts" and ?p = "(v + length pts - 1) mod length pts"
  have p: "?p < ?n" and np: "(?p + 1) mod ?n = v"
    using pred_mod [OF v] by auto
  define a where "a = px (pts ! v) - px (pts ! ?p)"
  define b where "b = py (pts ! v) - py (pts ! ?p)"
  define x where "x = px (pts ! ((v + 1) mod ?n)) - px (pts ! v)"
  define y where "y = py (pts ! ((v + 1) mod ?n)) - py (pts ! v)"
  define o1 where "o1 = offsets ! ?p"
  define o2 where "o2 = offsets ! v"
  have eps: "0 < EPS" by (simp add: EPS_def)
  have cross: "cornerCross pts v = a * y - b * x"
    by (simp add: cornerCross_def Let_def a_def b_def x_def y_def)
  from meet eps have c: "a * y - b * x \<noteq> 0" unfolding cross by auto
  from meet have big: "\<not> \<bar>a * y - b * x\<bar> < EPS" unfolding cross by simp
  note H = cross_nonzero [OF c]
  have P: "hypot a b \<noteq> 0" and L: "hypot x y \<noteq> 0" using H by simp_all
  have e1: "getEdge pts offsets sign ?p =
      Inr \<lparr>ep = \<lparr>px = px (pts ! ?p) + (sign * - b / hypot a b) * (offsets ! ?p),
                  py = py (pts ! ?p) + (sign * a / hypot a b) * (offsets ! ?p)\<rparr>,
           en = \<lparr>px = sign * - b / hypot a b, py = sign * a / hypot a b\<rparr>,
           eo = offsets ! ?p, ea = pts ! ?p, ed = \<lparr>px = a, py = b\<rparr>\<rparr>"
    by (rule getEdge_value [OF p _ _ H(1)]) (simp_all only: np a_def b_def)
  have e2: "getEdge pts offsets sign v =
      Inr \<lparr>ep = \<lparr>px = px (pts ! v) + (sign * - y / hypot x y) * (offsets ! v),
                  py = py (pts ! v) + (sign * x / hypot x y) * (offsets ! v)\<rparr>,
           en = \<lparr>px = sign * - y / hypot x y, py = sign * x / hypot x y\<rparr>,
           eo = offsets ! v, ea = pts ! v, ed = \<lparr>px = x, py = y\<rparr>\<rparr>"
    by (rule getEdge_value [OF v _ _ H(2)]) (simp_all only: x_def y_def)
  have pv: "px (pts ! v) = px (pts ! ?p) + a" "py (pts ! v) = py (pts ! ?p) + b"
    by (simp_all add: a_def b_def)
  have num: "(px (pts ! v) + (sign * - y / hypot x y) * (offsets ! v)
              - (px (pts ! ?p) + (sign * - b / hypot a b) * (offsets ! ?p))) * y
            - (py (pts ! v) + (sign * x / hypot x y) * (offsets ! v)
              - (py (pts ! ?p) + (sign * a / hypot a b) * (offsets ! ?p))) * x
           = (a * y - b * x) + sign * ((a * x + b * y) * o1 / hypot a b - hypot x y * o2)"
    using meet_parameter [where P = "hypot a b" and L = "hypot x y" and x = x and y = y and a = a
        and b = b and s = sign and ?o1.0 = o1 and ?o2.0 = o2, OF P L hypot_square]
    unfolding pv o1_def o2_def by (simp add: algebra_simps)
  have t: "((px (pts ! v) + (sign * - y / hypot x y) * (offsets ! v)
              - (px (pts ! ?p) + (sign * - b / hypot a b) * (offsets ! ?p))) * y
            - (py (pts ! v) + (sign * x / hypot x y) * (offsets ! v)
              - (py (pts ! ?p) + (sign * a / hypot a b) * (offsets ! ?p))) * x) / (a * y - b * x)
           = 1 + sign * ((a * x + b * y) * o1 / hypot a b - hypot x y * o2) / (a * y - b * x)"
    unfolding num using c by (simp add: add_divide_distrib)
  have li: "lineIntersection
              \<lparr>px = px (pts ! ?p) + (sign * - b / hypot a b) * (offsets ! ?p),
                py = py (pts ! ?p) + (sign * a / hypot a b) * (offsets ! ?p)\<rparr>
              \<lparr>px = a, py = b\<rparr>
              \<lparr>px = px (pts ! v) + (sign * - y / hypot x y) * (offsets ! v),
                py = py (pts ! v) + (sign * x / hypot x y) * (offsets ! v)\<rparr>
              \<lparr>px = x, py = y\<rparr>
            = Some \<lparr>px = px (pts ! ?p) + (sign * - b / hypot a b) * (offsets ! ?p)
                          + a * (1 + sign * ((a * x + b * y) * o1 / hypot a b - hypot x y * o2)
                                       / (a * y - b * x)),
                     py = py (pts ! ?p) + (sign * a / hypot a b) * (offsets ! ?p)
                          + b * (1 + sign * ((a * x + b * y) * o1 / hypot a b - hypot x y * o2)
                                       / (a * y - b * x))\<rparr>"
    using big unfolding lineIntersection_def Let_def
    by (simp only: Vec2.simps t if_False)
  note M = meet_point [where P = "hypot a b" and L = "hypot x y" and x = x and y = y and a = a
        and b = b and s = sign and ?o1.0 = o1 and ?o2.0 = o2 and c = "a * y - b * x",
        OF P c hypot_square refl]
  have corner0: "cornerPoint pts offsets sign v =
        \<lparr>px = px (pts ! v) + (sign / (a * y - b * x)) * (o1 * hypot a b * x - o2 * hypot x y * a),
          py = py (pts ! v) + (sign / (a * y - b * x)) * (o1 * hypot a b * y - o2 * hypot x y * b)\<rparr>"
    unfolding cornerPoint_def Let_def a_def [symmetric] b_def [symmetric] x_def [symmetric]
      y_def [symmetric] o1_def [symmetric] o2_def [symmetric] ..
  have corner: "cornerPoint pts offsets sign v =
        \<lparr>px = px (pts ! ?p) + (sign * - b / hypot a b) * (offsets ! ?p)
                          + a * (1 + sign * ((a * x + b * y) * o1 / hypot a b - hypot x y * o2)
                                       / (a * y - b * x)),
          py = py (pts ! ?p) + (sign * a / hypot a b) * (offsets ! ?p)
                          + b * (1 + sign * ((a * x + b * y) * o1 / hypot a b - hypot x y * o2)
                                       / (a * y - b * x))\<rparr>"
    unfolding corner0 pv o1_def [symmetric]
    using M by (simp add: add.assoc)
  show ?thesis
    by (simp only: offsetCorner_def e1 e2 bind_e_Inr Edge.select_convs li option.simps corner)
qed

subsection \<open>The inner edge between two such corners\<close>

definition windingSign :: "Vec2 list \<Rightarrow> real" where
  \<comment> \<open>\<open>sign\<close> in \<open>offsetPolygon\<close>: \<open>area >= 0 ? 1 : -1\<close>\<close>
  "windingSign pts = (if shoelace pts / 2 \<ge> 0 then 1 else - 1)"

lemma offsetLoop_corners:
  "offsetLoop pts offsets sign is result = Inr r \<Longrightarrow>
   \<exists>cs. r = result @ cs \<and> length cs = length is
        \<and> (\<forall>q < length is. offsetCorner pts offsets sign (is ! q) = Inr (cs ! q))"
proof (induction "is" arbitrary: result)
  case Nil
  then show ?case by simp
next
  case (Cons i "is")
  from Cons.prems obtain c where c: "offsetCorner pts offsets sign i = Inr c"
    by (cases "offsetCorner pts offsets sign i") simp_all
  with Cons.prems have "offsetLoop pts offsets sign is (result @ [c]) = Inr r" by simp
  from Cons.IH [OF this] obtain cs where cs: "r = (result @ [c]) @ cs" "length cs = length is"
    "\<forall>q < length is. offsetCorner pts offsets sign (is ! q) = Inr (cs ! q)" by blast
  have "\<forall>q < length (i # is). offsetCorner pts offsets sign ((i # is) ! q) = Inr ((c # cs) ! q)"
    using c cs(3) by (auto simp: nth_Cons split: nat.splits)
  with cs(1,2) show ?case by (intro exI [of _ "c # cs"]) simp
qed

lemma offsetPolygon_corners:
  assumes "offsetPolygon pts offsets = Inr (Some r)"
  shows "length r = length pts"
    and "\<forall>i < length pts. offsetCorner pts offsets (windingSign pts) i = Inr (r ! i)"
proof -
  from assms have guard: "\<not> (length pts < 3 \<or> length offsets \<noteq> length pts)"
    by (auto simp: offsetPolygon_def split: if_splits)
  with assms have "offsetLoop pts offsets (windingSign pts) [0..<length pts] [] = Inr r"
    unfolding offsetPolygon_def polygonAreaSigned_value windingSign_def
    by (cases "offsetLoop pts offsets (if 0 \<le> shoelace pts / 2 then 1 else - 1) [0..<length pts] []")
       (simp_all add: Let_def)
  from offsetLoop_corners [OF this]
  show "length r = length pts"
    and "\<forall>i < length pts. offsetCorner pts offsets (windingSign pts) i = Inr (r ! i)"
    by auto
qed

lemma hypot_scale: "hypot (x * c) (y * c) = \<bar>c\<bar> * hypot x y"
proof -
  have "(x * c) * (x * c) + (y * c) * (y * c) = c\<^sup>2 * (x * x + y * y)"
    by (simp add: power2_eq_square algebra_simps)
  then show ?thesis
    by (simp add: hypot_def real_sqrt_mult)
qed

lemma hypot_swap: "hypot (u - v) (w - z) = hypot (v - u) (z - w)"
proof -
  have "(u - v) * (u - v) + (w - z) * (w - z) = (v - u) * (v - u) + (z - w) * (z - w)"
    by (simp add: algebra_simps)
  then show ?thesis by (simp only: hypot_def)
qed

lemma succ_pred:
  fixes i n :: nat
  assumes "i < n"
  shows "((i + 1) mod n + n - 1) mod n = i" and "(i + 1) mod n < n"
proof -
  show "(i + 1) mod n < n" using assms by simp
  show "((i + 1) mod n + n - 1) mod n = i"
  proof (cases "i + 1 = n")
    case True
    then have "(i + 1) mod n = 0" by simp
    with True assms show ?thesis by simp
  next
    case False
    with assms have "(i + 1) mod n = i + 1" by simp
    moreover have "(i + 1 + n - 1) mod n = (i + n) mod n" by simp
    ultimately show ?thesis using assms by simp
  qed
qed

text \<open>
  The two corners at the ends of edge \<open>i\<close> both take the intersection branch of
  \<open>offsetPolygon\<close>.
\<close>

definition cornersMeet :: "Vec2 list \<Rightarrow> nat \<Rightarrow> bool" where
  "cornersMeet pts i =
     (EPS \<le> \<bar>cornerCross pts i\<bar> \<and> EPS \<le> \<bar>cornerCross pts ((i + 1) mod length pts)\<bar>)"

text \<open>
  \<open>cornerShift pts v nb own\<close>: by how many pixels the mitered corner at vertex \<open>v\<close> slides
  along an edge at \<open>v\<close>, into that edge, when that edge has the offset \<open>own\<close> and the
  other edge at \<open>v\<close> the offset \<open>nb\<close>: the neighbour's offset times both lengths, minus
  the own offset times the dot product of the two edges, over their cross product, with
  the sign of the winding. At a corner of interior angle \<open>\<alpha>\<close> this is
  \<open>(nb + own * cos \<alpha>) / sin \<alpha>\<close>.
\<close>

definition cornerShift :: "Vec2 list \<Rightarrow> nat \<Rightarrow> real \<Rightarrow> real \<Rightarrow> real" where
  "cornerShift pts v nb own =
     windingSign pts
       * (nb * (edgeLength pts ((v + length pts - 1) mod length pts) * edgeLength pts v)
          - own * cornerDot pts v)
       / cornerCross pts v"

text \<open>
  \<open>shortening pts offsets i\<close>: by how many pixels the two mitered corners shorten edge \<open>i\<close>,
  the shifts of its two end corners together.
\<close>

definition shortening :: "Vec2 list \<Rightarrow> real list \<Rightarrow> nat \<Rightarrow> real" where
  "shortening pts offsets i =
     (let j = (i + length pts - 1) mod length pts;
          k = (i + 1) mod length pts
      in cornerShift pts i (offsets ! j) (offsets ! i)
         + cornerShift pts k (offsets ! k) (offsets ! i))"

lemma inner_edge_length:
  assumes inner: "offsetPolygon pts offsets = Inr (Some inner)"
    and i: "i < length pts"
    and meet: "cornersMeet pts i"
  shows "distance (inner ! i) (inner ! ((i + 1) mod length inner))
         = \<bar>edgeLength pts i - shortening pts offsets i\<bar>"
proof -
  let ?n = "length pts"
  let ?s = "windingSign pts"
  define j where "j = (i + ?n - 1) mod ?n"
  define k where "k = (i + 1) mod ?n"
  define m where "m = (k + 1) mod ?n"
  have k: "k < ?n" and pk: "(k + ?n - 1) mod ?n = i"
    using succ_pred [OF i] by (simp_all add: k_def)
  have j: "j < ?n" and nj: "(j + 1) mod ?n = i"
    using pred_mod [OF i] by (simp_all add: j_def)
  define a where "a = px (pts ! i) - px (pts ! j)"
  define b where "b = py (pts ! i) - py (pts ! j)"
  define x where "x = px (pts ! k) - px (pts ! i)"
  define y where "y = py (pts ! k) - py (pts ! i)"
  define p where "p = px (pts ! m) - px (pts ! k)"
  define q where "q = py (pts ! m) - py (pts ! k)"
  define o1 where "o1 = offsets ! j"
  define o2 where "o2 = offsets ! i"
  define o3 where "o3 = offsets ! k"
  have eps: "0 < EPS" by (simp add: EPS_def)
  have cross1: "cornerCross pts i = a * y - b * x"
    by (simp add: cornerCross_def Let_def a_def b_def x_def y_def j_def k_def)
  have cross2: "cornerCross pts k = x * q - y * p"
    unfolding cornerCross_def Let_def pk m_def [symmetric] x_def y_def p_def q_def ..
  have dot1: "cornerDot pts i = a * x + b * y"
    by (simp add: cornerDot_def Let_def a_def b_def x_def y_def j_def k_def)
  have dot2: "cornerDot pts k = x * p + y * q"
    unfolding cornerDot_def Let_def pk m_def [symmetric] x_def y_def p_def q_def ..
  from meet have m1: "EPS \<le> \<bar>cornerCross pts i\<bar>" and m2: "EPS \<le> \<bar>cornerCross pts k\<bar>"
    by (simp_all add: cornersMeet_def k_def)
  from m1 eps have c1: "a * y - b * x \<noteq> 0" unfolding cross1 by auto
  from m2 eps have c2: "x * q - y * p \<noteq> 0" unfolding cross2 by auto
  have L: "hypot x y \<noteq> 0" using cross_nonzero(2) [OF c1] by simp
  have Lpos: "0 < hypot x y" using cross_nonzero(2) [OF c1] .
  have len_i: "edgeLength pts i = hypot x y"
    unfolding edgeLength_def distance_def Let_def k_def [symmetric] x_def y_def
    by (rule hypot_swap)
  have len_j: "edgeLength pts j = hypot a b"
    unfolding edgeLength_def distance_def Let_def nj a_def b_def
    by (rule hypot_swap)
  have len_k: "edgeLength pts k = hypot p q"
    unfolding edgeLength_def distance_def Let_def m_def [symmetric] p_def q_def
    by (rule hypot_swap)
  define D where "D = ?s * ((o3 * hypot p q * hypot x y - o2 * (x * p + y * q)) / (x * q - y * p)
                      + (o1 * hypot a b * hypot x y - o2 * (a * x + b * y)) / (a * y - b * x))"
  have "shortening pts offsets i =
          ?s * (o1 * (hypot a b * hypot x y) - o2 * (a * x + b * y)) / (a * y - b * x)
          + ?s * (o3 * (hypot x y * hypot p q) - o2 * (x * p + y * q)) / (x * q - y * p)"
    unfolding shortening_def cornerShift_def Let_def pk j_def [symmetric] k_def [symmetric]
      len_i len_j len_k cross1 cross2 dot1 dot2 o1_def o2_def o3_def ..
  also have "\<dots> = D"
    unfolding D_def by (simp add: algebra_simps add_divide_distrib diff_divide_distrib)
  finally have short: "shortening pts offsets i = D" .
  note c = offsetPolygon_corners [OF inner]
  have "Inr (inner ! i) = Inr (cornerPoint pts offsets ?s i)"
    using c(2) i offsetCorner_meet [OF i m1, of offsets ?s] by simp
  then have qi: "inner ! i = cornerPoint pts offsets ?s i" by simp
  have "Inr (inner ! k) = Inr (cornerPoint pts offsets ?s k)"
    using c(2) k offsetCorner_meet [OF k m2, of offsets ?s] by simp
  then have qk: "inner ! ((i + 1) mod length inner) = cornerPoint pts offsets ?s k"
    by (simp add: c(1) k_def)
  have ci: "cornerPoint pts offsets ?s i =
      \<lparr>px = px (pts ! i) + (?s / (a * y - b * x)) * (o1 * hypot a b * x - o2 * hypot x y * a),
        py = py (pts ! i) + (?s / (a * y - b * x)) * (o1 * hypot a b * y - o2 * hypot x y * b)\<rparr>"
    unfolding cornerPoint_def Let_def j_def [symmetric] k_def [symmetric] a_def [symmetric]
      b_def [symmetric] x_def [symmetric] y_def [symmetric] o1_def [symmetric] o2_def [symmetric] ..
  have ck: "cornerPoint pts offsets ?s k =
      \<lparr>px = px (pts ! k) + (?s / (x * q - y * p)) * (o2 * hypot x y * p - o3 * hypot p q * x),
        py = py (pts ! k) + (?s / (x * q - y * p)) * (o2 * hypot x y * q - o3 * hypot p q * y)\<rparr>"
    unfolding cornerPoint_def Let_def pk m_def [symmetric] x_def [symmetric]
      y_def [symmetric] p_def [symmetric] q_def [symmetric] o2_def [symmetric] o3_def [symmetric] ..
  have pk': "px (pts ! k) = px (pts ! i) + x" "py (pts ! k) = py (pts ! i) + y"
    by (simp_all add: x_def y_def)
  note E = inner_edge_component [where L = "hypot x y" and P = "hypot a b" and N = "hypot p q"
      and x = x and y = y and a = a and b = b and p = p and q = q and s = ?s
      and ?o1.0 = o1 and ?o2.0 = o2 and ?o3.0 = o3
      and ?c1.0 = "a * y - b * x" and ?c2.0 = "x * q - y * p",
      OF L c1 c2 hypot_square refl refl, folded D_def]
  have dx: "px (cornerPoint pts offsets ?s i) - px (cornerPoint pts offsets ?s k)
            = x * ((D - hypot x y) / hypot x y)"
    unfolding ci ck Vec2.simps pk' using E(1) by (simp add: algebra_simps)
  have dy: "py (cornerPoint pts offsets ?s i) - py (cornerPoint pts offsets ?s k)
            = y * ((D - hypot x y) / hypot x y)"
    unfolding ci ck Vec2.simps pk' using E(2) by (simp add: algebra_simps)
  have "distance (inner ! i) (inner ! ((i + 1) mod length inner))
        = \<bar>(D - hypot x y) / hypot x y\<bar> * hypot x y"
    unfolding qi qk distance_def Let_def dx dy by (rule hypot_scale)
  also have "\<dots> = \<bar>D - hypot x y\<bar>" using Lpos by (simp add: abs_divide)
  also have "\<dots> = \<bar>edgeLength pts i - shortening pts offsets i\<bar>"
    unfolding len_i short by (simp add: abs_minus_commute)
  finally show ?thesis .
qed

lemma dot_less_lengths:
  fixes a b x y :: real
  assumes "a * y - b * x \<noteq> 0"
  shows "a * x + b * y < hypot a b * hypot x y"
proof -
  have lagrange: "(hypot a b * hypot x y)\<^sup>2 = (a * x + b * y)\<^sup>2 + (a * y - b * x)\<^sup>2"
  proof -
    have "(hypot a b * hypot x y)\<^sup>2 = (hypot a b * hypot a b) * (hypot x y * hypot x y)"
      by (simp add: power2_eq_square)
    also have "\<dots> = (a * a + b * b) * (x * x + y * y)" by (simp only: hypot_square)
    also have "\<dots> = (a * x + b * y)\<^sup>2 + (a * y - b * x)\<^sup>2"
      by (simp add: power2_eq_square algebra_simps)
    finally show ?thesis .
  qed
  from assms have "0 < (a * y - b * x)\<^sup>2" by simp
  with lagrange have "(a * x + b * y)\<^sup>2 < (hypot a b * hypot x y)\<^sup>2" by simp
  moreover have "0 \<le> hypot a b * hypot x y" by (simp add: hypot_def)
  ultimately show ?thesis by (rule power2_less_imp_less)
qed

lemma right_angle_lengths:
  fixes a b x y s :: real
  assumes dot: "a * x + b * y = 0"
  shows "\<bar>a * y - b * x\<bar> = hypot a b * hypot x y"
proof -
  have sq: "(a * y - b * x)\<^sup>2 = (a * a + b * b) * (x * x + y * y) - (a * x + b * y)\<^sup>2"
    by (simp add: power2_eq_square algebra_simps)
  have "hypot a b * hypot x y = sqrt ((a * a + b * b) * (x * x + y * y))"
    by (simp add: hypot_def real_sqrt_mult)
  also have "\<dots> = sqrt ((a * y - b * x)\<^sup>2)" by (simp add: sq dot)
  also have "\<dots> = \<bar>a * y - b * x\<bar>" by simp
  finally show ?thesis by simp
qed

text \<open>The shift of the corner at \<open>v\<close> in the coordinates of its two edges.\<close>

lemma cornerShift_value:
  assumes v: "v < length pts"
    and a: "a = px (pts ! v) - px (pts ! ((v + length pts - 1) mod length pts))"
    and b: "b = py (pts ! v) - py (pts ! ((v + length pts - 1) mod length pts))"
    and x: "x = px (pts ! ((v + 1) mod length pts)) - px (pts ! v)"
    and y: "y = py (pts ! ((v + 1) mod length pts)) - py (pts ! v)"
  shows "cornerShift pts v nb own =
           windingSign pts * (nb * (hypot a b * hypot x y) - own * (a * x + b * y)) / (a * y - b * x)"
    and "cornerCross pts v = a * y - b * x"
    and "cornerDot pts v = a * x + b * y"
proof -
  let ?n = "length pts"
  define j where "j = (v + ?n - 1) mod ?n"
  have nj: "(j + 1) mod ?n = v" using pred_mod [OF v] by (simp add: j_def)
  show cross: "cornerCross pts v = a * y - b * x"
    by (simp add: cornerCross_def Let_def a b x y)
  show dot: "cornerDot pts v = a * x + b * y"
    by (simp add: cornerDot_def Let_def a b x y)
  have len_v: "edgeLength pts v = hypot x y"
    unfolding edgeLength_def distance_def Let_def x y by (rule hypot_swap)
  have len_j: "edgeLength pts j = hypot a b"
    unfolding edgeLength_def distance_def Let_def nj a b j_def [symmetric] by (rule hypot_swap)
  show "cornerShift pts v nb own =
           windingSign pts * (nb * (hypot a b * hypot x y) - own * (a * x + b * y)) / (a * y - b * x)"
    unfolding cornerShift_def j_def [symmetric] len_v len_j cross dot ..
qed

text \<open>
  At a convex corner the shift is positive when the neighbouring edge has a positive
  offset that is at least the offset of the edge itself; at a convex right angle it is
  the offset of the neighbouring edge, and at a reflex right angle the opposite.
\<close>

lemma cornerShift_positive:
  assumes v: "v < length pts"
    and convex: "EPS \<le> windingSign pts * cornerCross pts v"
    and offs: "0 \<le> own" "own \<le> nb" "0 < nb"
  shows "0 < cornerShift pts v nb own"
proof -
  let ?s = "windingSign pts"
  define a where "a = px (pts ! v) - px (pts ! ((v + length pts - 1) mod length pts))"
  define b where "b = py (pts ! v) - py (pts ! ((v + length pts - 1) mod length pts))"
  define x where "x = px (pts ! ((v + 1) mod length pts)) - px (pts ! v)"
  define y where "y = py (pts ! ((v + 1) mod length pts)) - py (pts ! v)"
  note V = cornerShift_value [OF v a_def b_def x_def y_def]
  have eps: "0 < EPS" by (simp add: EPS_def)
  from convex eps have c: "0 < ?s * (a * y - b * x)" unfolding V(2) by linarith
  then have n: "a * y - b * x \<noteq> 0" by auto
  have M: "0 < hypot a b * hypot x y" using cross_nonzero [OF n] by simp
  have d: "a * x + b * y < hypot a b * hypot x y" by (rule dot_less_lengths [OF n])
  have pos: "0 < nb * (hypot a b * hypot x y) - own * (a * x + b * y)"
  proof (cases "own = 0")
    case True
    with M offs(3) show ?thesis by simp
  next
    case False
    with offs(1) have "0 < own" by simp
    then have "own * (a * x + b * y) < own * (hypot a b * hypot x y)" using d by simp
    also have "own * (hypot a b * hypot x y) \<le> nb * (hypot a b * hypot x y)"
      using M offs(2) by (simp add: mult_right_mono)
    finally show ?thesis by simp
  qed
  have s: "?s = 1 \<or> ?s = - 1" by (simp add: windingSign_def)
  from s have "0 < ?s * (nb * (hypot a b * hypot x y) - own * (a * x + b * y)) / (a * y - b * x)"
  proof
    assume "?s = 1"
    with c pos show ?thesis by simp
  next
    assume "?s = - 1"
    with c pos show ?thesis by (simp add: divide_neg_neg)
  qed
  then show ?thesis unfolding V(1) .
qed

lemma cornerShift_right_angle:
  assumes v: "v < length pts"
    and dot: "cornerDot pts v = 0"
    and turn: "EPS \<le> \<bar>cornerCross pts v\<bar>"
  shows "cornerShift pts v nb own =
           (if 0 < windingSign pts * cornerCross pts v then nb else - nb)"
proof -
  let ?s = "windingSign pts"
  define a where "a = px (pts ! v) - px (pts ! ((v + length pts - 1) mod length pts))"
  define b where "b = py (pts ! v) - py (pts ! ((v + length pts - 1) mod length pts))"
  define x where "x = px (pts ! ((v + 1) mod length pts)) - px (pts ! v)"
  define y where "y = py (pts ! ((v + 1) mod length pts)) - py (pts ! v)"
  note V = cornerShift_value [OF v a_def b_def x_def y_def]
  have eps: "0 < EPS" by (simp add: EPS_def)
  from dot have d: "a * x + b * y = 0" unfolding V(3) .
  from turn eps have n: "a * y - b * x \<noteq> 0" unfolding V(2) by auto
  note L = right_angle_lengths [OF d]
  have s: "?s = 1 \<or> ?s = - 1" by (simp add: windingSign_def)
  define c where "c = a * y - b * x"
  have shift: "cornerShift pts v nb own = ?s * (nb * \<bar>c\<bar>) / c"
    unfolding V(1) d L [symmetric] c_def by simp
  have n': "c \<noteq> 0" using n by (simp add: c_def)
  show ?thesis
  proof (cases "0 < c")
    case True
    then have "nb * \<bar>c\<bar> / c = nb" by simp
    with s True show ?thesis unfolding shift V(2) c_def [symmetric]
      by (auto simp: zero_less_mult_iff)
  next
    case False
    with n' have neg: "c < 0" by simp
    then have "nb * \<bar>c\<bar> / c = - nb" using n' by (simp add: field_simps)
    with s neg show ?thesis unfolding shift V(2) c_def [symmetric]
      by (auto simp: zero_less_mult_iff)
  qed
qed

text \<open>
  Between two convex corners, with positive offsets on the two neighbouring edges that
  are at least the offset of the edge itself (walls all equally thick, for one), the
  edge is shortened; between two convex right angles it is shortened by the two
  neighbouring offsets together.
\<close>

lemma shortening_positive:
  assumes i: "i < length pts"
    and convex: "EPS \<le> windingSign pts * cornerCross pts i"
      "EPS \<le> windingSign pts * cornerCross pts ((i + 1) mod length pts)"
    and own: "0 \<le> offsets ! i"
    and before: "0 < offsets ! ((i + length pts - 1) mod length pts)"
      "offsets ! i \<le> offsets ! ((i + length pts - 1) mod length pts)"
    and after: "0 < offsets ! ((i + 1) mod length pts)"
      "offsets ! i \<le> offsets ! ((i + 1) mod length pts)"
  shows "0 < shortening pts offsets i"
proof -
  have k: "(i + 1) mod length pts < length pts" using succ_pred [OF i] by simp
  from cornerShift_positive [OF i convex(1) own before(2,1)]
    cornerShift_positive [OF k convex(2) own after(2,1)]
  show ?thesis by (simp add: shortening_def Let_def)
qed

lemma shortening_right_angles:
  assumes i: "i < length pts"
    and dot: "cornerDot pts i = 0" "cornerDot pts ((i + 1) mod length pts) = 0"
    and convex: "EPS \<le> windingSign pts * cornerCross pts i"
      "EPS \<le> windingSign pts * cornerCross pts ((i + 1) mod length pts)"
  shows "shortening pts offsets i
         = offsets ! ((i + length pts - 1) mod length pts) + offsets ! ((i + 1) mod length pts)"
proof -
  have k: "(i + 1) mod length pts < length pts" using succ_pred [OF i] by simp
  have eps: "0 < EPS" by (simp add: EPS_def)
  from convex eps have p: "0 < windingSign pts * cornerCross pts i"
    "0 < windingSign pts * cornerCross pts ((i + 1) mod length pts)" by linarith+
  have t: "EPS \<le> \<bar>cornerCross pts i\<bar>" "EPS \<le> \<bar>cornerCross pts ((i + 1) mod length pts)\<bar>"
  proof -
    have "windingSign pts * c \<le> \<bar>c\<bar>" for c by (auto simp: windingSign_def)
    with convex show "EPS \<le> \<bar>cornerCross pts i\<bar>"
      "EPS \<le> \<bar>cornerCross pts ((i + 1) mod length pts)\<bar>"
      by (meson order_trans)+
  qed
  show ?thesis
    unfolding shortening_def Let_def
      cornerShift_right_angle [OF i dot(1) t(1)] cornerShift_right_angle [OF k dot(2) t(2)]
    using p by simp
qed

subsection \<open>The length kept for a wall\<close>

lemma foldl_keepLength_member:
  "\<exists>l. foldl keepLength (Some e) ls = Some l \<and> (l = e \<or> l \<in> set ls)"
proof (induction ls arbitrary: e)
  case Nil
  then show ?case by simp
next
  case (Cons a ls)
  obtain e' where e': "keepLength (Some e) a = Some e'" "e' = e \<or> e' = a"
    by (auto simp: keepLength_def min_def)
  from Cons [of e'] obtain l where "foldl keepLength (Some e') ls = Some l" "l = e' \<or> l \<in> set ls"
    by blast
  with e' show ?case by auto
qed

lemma foldl_keepLength_nonempty:
  assumes "ls \<noteq> []"
  shows "\<exists>l. foldl keepLength None ls = Some l \<and> l \<in> set ls"
proof -
  from assms obtain a ls' where ls: "ls = a # ls'" by (cases ls) auto
  have "keepLength None a = Some a" by (simp add: keepLength_def)
  with foldl_keepLength_member [of a ls'] ls show ?thesis by auto
qed

text \<open>
  \<open>borderEdges\<close>: the edges of a room that \<open>getInnerLengthByWallId\<close> measures for the wall
  id \<open>w\<close>: none when the inner polygon of the room is not computed, otherwise the
  indices \<open>i\<close> whose edge key has a first wall with id \<open>w\<close>.
\<close>

definition borderEdges :: "Room \<Rightarrow> WallEdgeMap \<Rightarrow> real \<Rightarrow> real \<Rightarrow> int \<Rightarrow> nat list" where
  "borderEdges room wallEdgeMap defaultWallThickness scale w =
     (case getRoomInnerPolygon room wallEdgeMap defaultWallThickness scale of
        Inr (Some inner) \<Rightarrow>
          if length inner \<noteq> length (points room) then []
          else filter (\<lambda>i. edgeWallId room wallEdgeMap i = Some w) [0..<length inner]
      | _ \<Rightarrow> [])"

lemma in_borderEdges:
  assumes "i \<in> set (borderEdges room wallEdgeMap d scale w)"
  shows "\<exists>inner. offsetPolygon (points room) (getRoomOffsets room wallEdgeMap d scale) = Inr (Some inner)
           \<and> getRoomInnerPolygon room wallEdgeMap d scale = Inr (Some inner)
           \<and> length inner = length (points room)"
    and "i < length (points room)" and "edgeWallId room wallEdgeMap i = Some w"
proof -
  obtain v where v: "getRoomInnerPolygon room wallEdgeMap d scale = Inr v"
    using getRoomInnerPolygon_ok by blast
  with assms obtain inner where v': "v = Some inner"
    by (cases v) (auto simp: borderEdges_def)
  note inner = v [unfolded v']
  from assms have len: "length inner = length (points room)"
    by (cases "length inner = length (points room)") (auto simp: borderEdges_def inner)
  with assms show "i < length (points room)" and "edgeWallId room wallEdgeMap i = Some w"
    by (simp_all add: borderEdges_def inner)
  from inner have "offsetPolygon (points room) (getRoomOffsets room wallEdgeMap d scale) = Inr (Some inner)"
    by (cases "offsetPolygon (points room) (getRoomOffsets room wallEdgeMap d scale)")
       (auto simp: getRoomInnerPolygon_def Let_def split: option.splits if_splits)
  with inner len
  show "\<exists>inner. offsetPolygon (points room) (getRoomOffsets room wallEdgeMap d scale) = Inr (Some inner)
           \<and> getRoomInnerPolygon room wallEdgeMap d scale = Inr (Some inner)
           \<and> length inner = length (points room)" by blast
qed

text \<open>The inner length that \<open>getInnerLengthByWallId\<close> computes for edge \<open>i\<close> of a room.\<close>

definition measured :: "Room \<Rightarrow> WallEdgeMap \<Rightarrow> real \<Rightarrow> real \<Rightarrow> nat \<Rightarrow> real" where
  "measured room wallEdgeMap defaultWallThickness scale i =
     (case getRoomInnerPolygon room wallEdgeMap defaultWallThickness scale of
        Inr (Some inner) \<Rightarrow> innerEdgeLength inner scale i
      | _ \<Rightarrow> 0)"

lemma roomEdgeLengths_borderEdges:
  "roomEdgeLengths room wallEdgeMap d scale w =
     map (measured room wallEdgeMap d scale) (borderEdges room wallEdgeMap d scale w)"
proof -
  obtain v where v: "getRoomInnerPolygon room wallEdgeMap d scale = Inr v"
    using getRoomInnerPolygon_ok by blast
  show ?thesis
    by (cases v) (simp_all add: roomEdgeLengths_def borderEdges_def measured_def v)
qed

lemma borderingLengths_empty:
  "(borderingLengths rooms wallEdgeMap d scale w = [])
   = (\<forall>room \<in> set rooms. borderEdges room wallEdgeMap d scale w = [])"
  by (simp add: borderingLengths_def roomEdgeLengths_borderEdges)

lemma in_borderingLengths:
  assumes "l \<in> set (borderingLengths rooms wallEdgeMap d scale w)"
  shows "\<exists>room i. room \<in> set rooms \<and> i \<in> set (borderEdges room wallEdgeMap d scale w)
           \<and> l = measured room wallEdgeMap d scale i"
  using assms by (auto simp: borderingLengths_def roomEdgeLengths_borderEdges)

text \<open>
  The shortening of edge \<open>i\<close> of a room, with the offsets that \<open>getRoomOffsets\<close> gives its
  edges; the edge is \<open>shortened\<close> when this lies strictly between 0 and twice the
  length \<open>outerPx\<close> of the edge.
\<close>

definition roomShortening :: "Room \<Rightarrow> WallEdgeMap \<Rightarrow> real \<Rightarrow> real \<Rightarrow> nat \<Rightarrow> real" where
  "roomShortening room wallEdgeMap defaultWallThickness scale i =
     shortening (points room) (getRoomOffsets room wallEdgeMap defaultWallThickness scale) i"

definition shortened :: "Room \<Rightarrow> WallEdgeMap \<Rightarrow> real \<Rightarrow> real \<Rightarrow> real \<Rightarrow> nat \<Rightarrow> bool" where
  "shortened room wallEdgeMap defaultWallThickness scale outerPx i =
     (0 < roomShortening room wallEdgeMap defaultWallThickness scale i
      \<and> roomShortening room wallEdgeMap defaultWallThickness scale i < 2 * outerPx)"

lemma measured_value:
  assumes i: "i \<in> set (borderEdges room wallEdgeMap d scale w)"
    and len: "edgeLength (points room) i = outerPx"
    and meet: "cornersMeet (points room) i"
  shows "measured room wallEdgeMap d scale i
         = \<bar>outerPx - roomShortening room wallEdgeMap d scale i\<bar> / scale"
proof -
  from in_borderEdges [OF i] obtain inner where
    off: "offsetPolygon (points room) (getRoomOffsets room wallEdgeMap d scale) = Inr (Some inner)"
    and inner: "getRoomInnerPolygon room wallEdgeMap d scale = Inr (Some inner)"
    and i': "i < length (points room)" by blast
  from inner_edge_length [OF off i' meet] len
  show ?thesis
    by (simp add: measured_def inner innerEdgeLength_def roomShortening_def)
qed

lemma less_iff_shortened:
  fixes outerPx scale D :: real
  assumes "0 < scale"
  shows "(\<bar>outerPx - D\<bar> / scale < outerPx / scale) = (0 < D \<and> D < 2 * outerPx)"
proof -
  have "(\<bar>outerPx - D\<bar> / scale < outerPx / scale) = (\<bar>outerPx - D\<bar> < outerPx)"
    using assms by (simp add: divide_less_cancel)
  also have "\<dots> = (0 < D \<and> D < 2 * outerPx)" by (auto simp: abs_less_iff)
  finally show ?thesis .
qed

text \<open>
  C9, as it holds. Let \<open>scale\<close> be positive, let \<open>getInnerLengthByWallId\<close> measure at least
  one room edge for the wall id \<open>w\<close>, and let every edge it measures for \<open>w\<close> be \<open>outerPx\<close>
  pixels long (the distance between the two end nodes of the wall), with both end
  corners not within \<open>EPS\<close> of parallel. Then the map holds for \<open>w\<close> the length
  \<open>\<bar>outerPx - shortening\<bar> / scale\<close> of one of these edges, and this is strictly less than
  the outer length \<open>outerPx / scale\<close> exactly when the shortening of that edge lies
  strictly between 0 and \<open>2 * outerPx\<close>; so it is strictly less than the outer length
  whenever every measured edge is shortened in this sense. By \<open>shortening_positive\<close> the
  shortening is positive between two convex corners whose other walls are at least as
  thick as the wall itself. The numbers are real numbers.
\<close>

theorem inner_length_less_than_outer_iff_shortened:
  assumes scale: "0 < scale"
    and borders: "\<exists>room \<in> set rooms. borderEdges room wallEdgeMap d scale w \<noteq> []"
    and meet: "\<forall>room \<in> set rooms. \<forall>i \<in> set (borderEdges room wallEdgeMap d scale w).
                 edgeLength (points room) i = outerPx \<and> cornersMeet (points room) i"
  shows "\<exists>res len room i.
           getInnerLengthByWallId rooms wallEdgeMap d scale = Inr res \<and> res w = Some len
           \<and> room \<in> set rooms \<and> i \<in> set (borderEdges room wallEdgeMap d scale w)
           \<and> len = \<bar>outerPx - roomShortening room wallEdgeMap d scale i\<bar> / scale
           \<and> (len < outerPx / scale) = shortened room wallEdgeMap d scale outerPx i
           \<and> ((\<forall>room \<in> set rooms. \<forall>i \<in> set (borderEdges room wallEdgeMap d scale w).
                   shortened room wallEdgeMap d scale outerPx i)
                \<longrightarrow> len < outerPx / scale)"
proof -
  from getInnerLengthByWallId_fold [of rooms wallEdgeMap d scale]
  obtain res where res: "getInnerLengthByWallId rooms wallEdgeMap d scale = Inr res"
    "res w = foldl keepLength None (borderingLengths rooms wallEdgeMap d scale w)"
    by blast
  from borders have "borderingLengths rooms wallEdgeMap d scale w \<noteq> []"
    by (simp add: borderingLengths_empty)
  from foldl_keepLength_nonempty [OF this] res(2)
  obtain len where len: "res w = Some len" "len \<in> set (borderingLengths rooms wallEdgeMap d scale w)"
    by auto
  from in_borderingLengths [OF len(2)] obtain room i where
    room: "room \<in> set rooms" and i: "i \<in> set (borderEdges room wallEdgeMap d scale w)"
    and l: "len = measured room wallEdgeMap d scale i"
    by blast
  from meet room i have outer: "edgeLength (points room) i = outerPx"
    and cm: "cornersMeet (points room) i" by blast+
  have lenval: "len = \<bar>outerPx - roomShortening room wallEdgeMap d scale i\<bar> / scale"
    unfolding l by (rule measured_value [OF i outer cm])
  have iff: "(len < outerPx / scale) = shortened room wallEdgeMap d scale outerPx i"
    unfolding lenval shortened_def by (rule less_iff_shortened [OF scale])
  have "len < outerPx / scale"
    if "\<forall>room \<in> set rooms. \<forall>i \<in> set (borderEdges room wallEdgeMap d scale w).
          shortened room wallEdgeMap d scale outerPx i"
    using that room i iff by blast
  with res(1) len(1) room i lenval iff show ?thesis by blast
qed

text \<open>
  A room without a right angle at either end of a wall: the right triangle with sides of
  40, 30 and 50 pixels, all walls 0.2 m thick, at 10 pixels per meter. Wall 2 is the long
  side. Its inner polygon is the triangle \<open>(1, 1)\<close>, \<open>(37, 1)\<close>, \<open>(1, 28)\<close>; the long side is
  shortened by 5 pixels.
\<close>

definition triangleWalls :: "Wall list" where
  "triangleWalls =
     [\<lparr>wid = 1, wa = 1, wb = 2, thickness = 1 / 5\<rparr>,
      \<lparr>wid = 2, wa = 2, wb = 3, thickness = 1 / 5\<rparr>,
      \<lparr>wid = 3, wa = 3, wb = 1, thickness = 1 / 5\<rparr>]"

definition triangleRoom :: Room where
  "triangleRoom = \<lparr>rid = 1, nodeIds = [1, 2, 3],
       points = [\<lparr>px = 0, py = 0\<rparr>, \<lparr>px = 40, py = 0\<rparr>, \<lparr>px = 0, py = 30\<rparr>]\<rparr>"

lemma hypot_values:
  "hypot (- 40) 30 = 50" "hypot 40 (- 30) = 50" "hypot 36 (- 27) = 45"
  by (simp_all add: hypot_def real_sqrt_unique)

lemma triangle_walls_at:
  "firstWall (buildWallEdgeMap triangleWalls) 1 2 = Some \<lparr>wid = 1, wa = 1, wb = 2, thickness = 1 / 5\<rparr>"
  "firstWall (buildWallEdgeMap triangleWalls) 2 3 = Some \<lparr>wid = 2, wa = 2, wb = 3, thickness = 1 / 5\<rparr>"
  "firstWall (buildWallEdgeMap triangleWalls) 3 1 = Some \<lparr>wid = 3, wa = 3, wb = 1, thickness = 1 / 5\<rparr>"
  by (simp_all add: firstWall_def buildWallEdgeMap_def edgeKey_def triangleWalls_def sortBy_def)

lemma triangle_offsets:
  "getRoomOffsets triangleRoom (buildWallEdgeMap triangleWalls) (1 / 5) 10 = [1, 1, 1]"
  by (simp add: getRoomOffsets_def triangleRoom_def triangle_walls_at upt_values)

lemma triangle_corners:
  "offsetCorner (points triangleRoom) [1, 1, 1] 1 0 = Inr \<lparr>px = 1, py = 1\<rparr>"
  "offsetCorner (points triangleRoom) [1, 1, 1] 1 (Suc 0) = Inr \<lparr>px = 37, py = 1\<rparr>"
  "offsetCorner (points triangleRoom) [1, 1, 1] 1 2 = Inr \<lparr>px = 1, py = 28\<rparr>"
  by (simp_all add: offsetCorner_def getEdge_def elem_def triangleRoom_def lineIntersection_def
      EPS_def Let_def hypot_values)

lemma triangle_inner:
  "getRoomInnerPolygon triangleRoom (buildWallEdgeMap triangleWalls) (1 / 5) 10 =
     Inr (Some [\<lparr>px = 1, py = 1\<rparr>, \<lparr>px = 37, py = 1\<rparr>, \<lparr>px = 1, py = 28\<rparr>])"
proof -
  have "shoelace (points triangleRoom) = 1200" by (simp add: triangleRoom_def shoelace_values)
  moreover have "length (points triangleRoom) = 3" by (simp add: triangleRoom_def)
  ultimately show ?thesis
    by (simp add: getRoomInnerPolygon_def triangle_offsets offsetPolygon_def polygonAreaSigned_value
        triangle_corners upt_values)
qed

lemma triangle_edges:
  "borderEdges triangleRoom (buildWallEdgeMap triangleWalls) (1 / 5) 10 2 = [1]"
  by (simp add: borderEdges_def triangle_inner upt_values edgeWallId_def)
     (simp add: triangleRoom_def triangle_walls_at)

lemma triangle_long_side:
  "edgeLength (points triangleRoom) (Suc 0) = 50"
  "cornersMeet (points triangleRoom) (Suc 0)"
  "roomShortening triangleRoom (buildWallEdgeMap triangleWalls) (1 / 5) 10 (Suc 0) = 5"
proof -
  show "edgeLength (points triangleRoom) (Suc 0) = 50"
    by (simp add: triangleRoom_def edgeLength_def distance_def hypot_values)
  show "cornersMeet (points triangleRoom) (Suc 0)"
    by (simp add: cornersMeet_def triangleRoom_def cornerCross_def EPS_def)
  have "shoelace (points triangleRoom) = 1200" by (simp add: triangleRoom_def shoelace_values)
  then have s: "windingSign (points triangleRoom) = 1" by (simp add: windingSign_def)
  show "roomShortening triangleRoom (buildWallEdgeMap triangleWalls) (1 / 5) 10 (Suc 0) = 5"
    unfolding roomShortening_def triangle_offsets shortening_def cornerShift_def s
    by (simp add: triangleRoom_def edgeLength_def distance_def cornerCross_def cornerDot_def
        hypot_values)
qed

theorem inner_length_less_than_outer_iff_shortened_witness:
  "borderEdges triangleRoom (buildWallEdgeMap triangleWalls) (1 / 5) 10 2 = [1]
   \<and> edgeLength (points triangleRoom) 1 = 50
   \<and> cornersMeet (points triangleRoom) 1
   \<and> roomShortening triangleRoom (buildWallEdgeMap triangleWalls) (1 / 5) 10 1 = 5
   \<and> shortened triangleRoom (buildWallEdgeMap triangleWalls) (1 / 5) 10 50 1
   \<and> (\<exists>res. getInnerLengthByWallId [triangleRoom] (buildWallEdgeMap triangleWalls) (1 / 5) 10
                = Inr res
              \<and> res 2 = Some (9 / 2) \<and> (9 / 2 :: real) < 50 / 10)"
proof -
  let ?M = "buildWallEdgeMap triangleWalls"
  have sc: "0 < (10 :: real)" by simp
  have b: "\<exists>room \<in> set [triangleRoom]. borderEdges room ?M (1 / 5) 10 2 \<noteq> []"
    by (simp add: triangle_edges)
  have m: "\<forall>room \<in> set [triangleRoom]. \<forall>i \<in> set (borderEdges room ?M (1 / 5) 10 2).
             edgeLength (points room) i = 50 \<and> cornersMeet (points room) i"
    by (simp add: triangle_edges triangle_long_side)
  from inner_length_less_than_outer_iff_shortened [OF sc b m]
  obtain res len room i where
    res: "getInnerLengthByWallId [triangleRoom] ?M (1 / 5) 10 = Inr res" "res 2 = Some len"
    and room: "room \<in> set [triangleRoom]"
    and i: "i \<in> set (borderEdges room ?M (1 / 5) 10 2)"
    and len: "len = \<bar>50 - roomShortening room ?M (1 / 5) 10 i\<bar> / 10"
    by blast
  from room i have "room = triangleRoom" "i = Suc 0" by (simp_all add: triangle_edges)
  with len have "len = 9 / 2" by (simp add: triangle_long_side)
  with res have "\<exists>res. getInnerLengthByWallId [triangleRoom] ?M (1 / 5) 10 = Inr res
                    \<and> res 2 = Some (9 / 2) \<and> (9 / 2 :: real) < 50 / 10"
    by simp
  then show ?thesis
    by (simp add: triangle_edges triangle_long_side shortened_def)
qed

subsection \<open>A wall between two reflex corners\<close>

text \<open>
  The plan \<open>ushape\<close>: one room in the shape of a U, 1 m wide everywhere at 10 pixels per
  meter, all walls 0.2 m thick. Wall 5 is the bottom of the notch, between the nodes 5
  and 6; the room has a reflex corner at both.
\<close>

lemma shoelace8:
  "shoelace [a, b, c, d, e, f, g, h] =
     (px a * py b - px b * py a) + (px b * py c - px c * py b) + (px c * py d - px d * py c)
     + (px d * py e - px e * py d) + (px e * py f - px f * py e) + (px f * py g - px g * py f)
     + (px g * py h - px h * py g) + (px h * py a - px a * py h)"
  by (simp add: shoelace_def crossTerm_def upt_rec)

definition ushapeNodes :: "NodePoint list" where
  "ushapeNodes =
     [\<lparr>nid = 1, nx = 0, ny = 0\<rparr>,
      \<lparr>nid = 2, nx = 30, ny = 0\<rparr>,
      \<lparr>nid = 3, nx = 30, ny = 20\<rparr>,
      \<lparr>nid = 4, nx = 20, ny = 20\<rparr>,
      \<lparr>nid = 5, nx = 20, ny = 10\<rparr>,
      \<lparr>nid = 6, nx = 10, ny = 10\<rparr>,
      \<lparr>nid = 7, nx = 10, ny = 20\<rparr>,
      \<lparr>nid = 8, nx = 0, ny = 20\<rparr>]"

definition ushapeWalls :: "Wall list" where
  "ushapeWalls =
     [\<lparr>wid = 1, wa = 1, wb = 2, thickness = 1 / 5\<rparr>,
      \<lparr>wid = 2, wa = 2, wb = 3, thickness = 1 / 5\<rparr>,
      \<lparr>wid = 3, wa = 3, wb = 4, thickness = 1 / 5\<rparr>,
      \<lparr>wid = 4, wa = 4, wb = 5, thickness = 1 / 5\<rparr>,
      \<lparr>wid = 5, wa = 5, wb = 6, thickness = 1 / 5\<rparr>,
      \<lparr>wid = 6, wa = 6, wb = 7, thickness = 1 / 5\<rparr>,
      \<lparr>wid = 7, wa = 7, wb = 8, thickness = 1 / 5\<rparr>,
      \<lparr>wid = 8, wa = 8, wb = 1, thickness = 1 / 5\<rparr>]"

definition ushapeAngleMap :: "int \<Rightarrow> int list option" where
  "ushapeAngleMap = [1 \<mapsto> [2, 8], 2 \<mapsto> [3, 1], 3 \<mapsto> [2, 4], 4 \<mapsto> [5, 3], 5 \<mapsto> [4, 6], 6 \<mapsto> [5, 7], 7 \<mapsto> [6, 8], 8 \<mapsto> [1, 7]]"

lemma ushape_adjacency:
  "buildAdjacency ushapeWalls = [(1, [2, 8]), (2, [1, 3]), (3, [2, 4]), (4, [3, 5]), (5, [4, 6]), (6, [5, 7]), (7, [6, 8]), (8, [7, 1])]"
  by (simp add: buildAdjacency_def ushapeWalls_def addWall_def ensureKey_def hasKey_def pushTo_def)

lemma ushape_angleMap:
  "buildAngleMap (nodeMapOf ushapeNodes) (buildAdjacency ushapeWalls) = ushapeAngleMap"
  unfolding ushape_adjacency ushapeAngleMap_def
  by (simp add: buildAngleMap_def nodeMapOf_def ushapeNodes_def dedupe_def sortBy_def compareAngle_def
      atan2_values)

lemma ushape_trace_1_2:
  "traceLoop ushapeAngleMap 1 2 0 1 2 [1] [] =
     (True, [1, 2, 3, 4, 5, 6, 7, 8, 1],
      [(1, 2), (2, 3), (3, 4), (4, 5), (5, 6), (6, 7), (7, 8), (8, 1)])"
  by (simp add: traceLoop.simps ushapeAngleMap_def nextNeighbor_def)

lemma ushape_trace_2_1:
  "traceLoop ushapeAngleMap 2 1 0 2 1 [2] [] =
     (True, [2, 1, 8, 7, 6, 5, 4, 3, 2],
      [(2, 1), (1, 8), (8, 7), (7, 6), (6, 5), (5, 4), (4, 3), (3, 2)])"
  by (simp add: traceLoop.simps ushapeAngleMap_def nextNeighbor_def)

lemmas ushape_traces = ushape_trace_1_2 ushape_trace_2_1

lemma ushape_nodeMap:
  "nodeMapOf ushapeNodes 1 = Some \<lparr>nid = 1, nx = 0, ny = 0\<rparr>"
  "nodeMapOf ushapeNodes 2 = Some \<lparr>nid = 2, nx = 30, ny = 0\<rparr>"
  "nodeMapOf ushapeNodes 3 = Some \<lparr>nid = 3, nx = 30, ny = 20\<rparr>"
  "nodeMapOf ushapeNodes 4 = Some \<lparr>nid = 4, nx = 20, ny = 20\<rparr>"
  "nodeMapOf ushapeNodes 5 = Some \<lparr>nid = 5, nx = 20, ny = 10\<rparr>"
  "nodeMapOf ushapeNodes 6 = Some \<lparr>nid = 6, nx = 10, ny = 10\<rparr>"
  "nodeMapOf ushapeNodes 7 = Some \<lparr>nid = 7, nx = 10, ny = 20\<rparr>"
  "nodeMapOf ushapeNodes 8 = Some \<lparr>nid = 8, nx = 0, ny = 20\<rparr>"
  by (simp_all add: nodeMapOf_def ushapeNodes_def)

lemma ushape_faces:
  "traceFaces ushapeNodes ushapeWalls =
     Inr [\<lparr>fnodeIds = [1, 2, 3, 4, 5, 6, 7, 8],
      fpoints = [\<lparr>px = 0, py = 0\<rparr>, \<lparr>px = 30, py = 0\<rparr>, \<lparr>px = 30, py = 20\<rparr>, \<lparr>px = 20, py = 20\<rparr>, \<lparr>px = 20, py = 10\<rparr>, \<lparr>px = 10, py = 10\<rparr>, \<lparr>px = 10, py = 20\<rparr>, \<lparr>px = 0, py = 20\<rparr>],
      area = 500\<rparr>,
          \<lparr>fnodeIds = [2, 1, 8, 7, 6, 5, 4, 3],
      fpoints = [\<lparr>px = 30, py = 0\<rparr>, \<lparr>px = 0, py = 0\<rparr>, \<lparr>px = 0, py = 20\<rparr>, \<lparr>px = 10, py = 20\<rparr>, \<lparr>px = 10, py = 10\<rparr>, \<lparr>px = 20, py = 10\<rparr>, \<lparr>px = 20, py = 20\<rparr>, \<lparr>px = 30, py = 20\<rparr>],
      area = - 500\<rparr>]"
  unfolding traceFaces_def Let_def ushape_angleMap
  by (simp add: ushapeWalls_def traceFrom_def ushape_traces List.map_filter_def ushape_nodeMap
      signedArea_value shoelace8)

lemma ushape_components:
  "buildComponents (buildAdjacency ushapeWalls) = [1 \<mapsto> 0, 2 \<mapsto> 0, 8 \<mapsto> 0, 3 \<mapsto> 0, 7 \<mapsto> 0, 4 \<mapsto> 0, 6 \<mapsto> 0, 5 \<mapsto> 0]"
  unfolding ushape_adjacency
  by (simp add: buildComponents_def componentsStep_def neighborsOf_def)

lemma ushape_filtered:
  "filterFaces ushapeWalls
     [\<lparr>fnodeIds = [1, 2, 3, 4, 5, 6, 7, 8],
      fpoints = [\<lparr>px = 0, py = 0\<rparr>, \<lparr>px = 30, py = 0\<rparr>, \<lparr>px = 30, py = 20\<rparr>, \<lparr>px = 20, py = 20\<rparr>, \<lparr>px = 20, py = 10\<rparr>, \<lparr>px = 10, py = 10\<rparr>, \<lparr>px = 10, py = 20\<rparr>, \<lparr>px = 0, py = 20\<rparr>],
      area = 500\<rparr>,
      \<lparr>fnodeIds = [2, 1, 8, 7, 6, 5, 4, 3],
      fpoints = [\<lparr>px = 30, py = 0\<rparr>, \<lparr>px = 0, py = 0\<rparr>, \<lparr>px = 0, py = 20\<rparr>, \<lparr>px = 10, py = 20\<rparr>, \<lparr>px = 10, py = 10\<rparr>, \<lparr>px = 20, py = 10\<rparr>, \<lparr>px = 20, py = 20\<rparr>, \<lparr>px = 30, py = 20\<rparr>],
      area = - 500\<rparr>] =
     [\<lparr>fnodeIds = [1, 2, 3, 4, 5, 6, 7, 8],
      fpoints = [\<lparr>px = 0, py = 0\<rparr>, \<lparr>px = 30, py = 0\<rparr>, \<lparr>px = 30, py = 20\<rparr>, \<lparr>px = 20, py = 20\<rparr>, \<lparr>px = 20, py = 10\<rparr>, \<lparr>px = 10, py = 10\<rparr>, \<lparr>px = 10, py = 20\<rparr>, \<lparr>px = 0, py = 20\<rparr>],
      area = 500\<rparr>]"
  unfolding filterFaces_def Let_def ushape_components
  by (simp add: groupFaces_def faceComponent_def ensureKey_def hasKey_def pushTo_def
      keepGroup_def absSum_def)

lemma ushape_rooms:
  "buildRoomsFromWalls ushapeNodes ushapeWalls =
     Inr [\<lparr>rid = 1, nodeIds = [1, 2, 3, 4, 5, 6, 7, 8],
      points = [\<lparr>px = 0, py = 0\<rparr>, \<lparr>px = 30, py = 0\<rparr>, \<lparr>px = 30, py = 20\<rparr>, \<lparr>px = 20, py = 20\<rparr>, \<lparr>px = 20, py = 10\<rparr>, \<lparr>px = 10, py = 10\<rparr>, \<lparr>px = 10, py = 20\<rparr>, \<lparr>px = 0, py = 20\<rparr>]\<rparr>]"
  by (simp add: buildRoomsFromWalls_def ushape_faces ushape_filtered toRooms_def)

text \<open>\<open>outerLength\<close> in \<open>getWallLengthMeters\<close> of App.tsx: the distance between the two
  end nodes of the wall over the scale, 0 when a node is missing.\<close>

definition outerLength :: "NodePoint list \<Rightarrow> Wall \<Rightarrow> real \<Rightarrow> real" where
  "outerLength nodes wall scale =
     (case (find (\<lambda>node. nid node = wa wall) nodes, find (\<lambda>node. nid node = wb wall) nodes) of
        (Some nodeA, Some nodeB) \<Rightarrow>
          distance \<lparr>px = nx nodeA, py = ny nodeA\<rparr> \<lparr>px = nx nodeB, py = ny nodeB\<rparr> / scale
      | _ \<Rightarrow> 0)"

definition ushapeRoom :: Room where
  "ushapeRoom = \<lparr>rid = 1, nodeIds = [1, 2, 3, 4, 5, 6, 7, 8],
       points = [\<lparr>px = 0, py = 0\<rparr>, \<lparr>px = 30, py = 0\<rparr>, \<lparr>px = 30, py = 20\<rparr>, \<lparr>px = 20, py = 20\<rparr>,
                 \<lparr>px = 20, py = 10\<rparr>, \<lparr>px = 10, py = 10\<rparr>, \<lparr>px = 10, py = 20\<rparr>, \<lparr>px = 0, py = 20\<rparr>]\<rparr>"

lemma ushape_walls_at:
  "firstWall (buildWallEdgeMap ushapeWalls) 1 2 = Some \<lparr>wid = 1, wa = 1, wb = 2, thickness = 1 / 5\<rparr>"
  "firstWall (buildWallEdgeMap ushapeWalls) 2 3 = Some \<lparr>wid = 2, wa = 2, wb = 3, thickness = 1 / 5\<rparr>"
  "firstWall (buildWallEdgeMap ushapeWalls) 3 4 = Some \<lparr>wid = 3, wa = 3, wb = 4, thickness = 1 / 5\<rparr>"
  "firstWall (buildWallEdgeMap ushapeWalls) 4 5 = Some \<lparr>wid = 4, wa = 4, wb = 5, thickness = 1 / 5\<rparr>"
  "firstWall (buildWallEdgeMap ushapeWalls) 5 6 = Some \<lparr>wid = 5, wa = 5, wb = 6, thickness = 1 / 5\<rparr>"
  "firstWall (buildWallEdgeMap ushapeWalls) 6 7 = Some \<lparr>wid = 6, wa = 6, wb = 7, thickness = 1 / 5\<rparr>"
  "firstWall (buildWallEdgeMap ushapeWalls) 7 8 = Some \<lparr>wid = 7, wa = 7, wb = 8, thickness = 1 / 5\<rparr>"
  "firstWall (buildWallEdgeMap ushapeWalls) 8 1 = Some \<lparr>wid = 8, wa = 8, wb = 1, thickness = 1 / 5\<rparr>"
  by (simp_all add: firstWall_def buildWallEdgeMap_def edgeKey_def ushapeWalls_def sortBy_def)

lemma ushape_offsets:
  "getRoomOffsets ushapeRoom (buildWallEdgeMap ushapeWalls) (1 / 5) 10 = [1, 1, 1, 1, 1, 1, 1, 1]"
  by (simp add: getRoomOffsets_def ushapeRoom_def ushape_walls_at upt_values)

lemma ushape_corners:
  "offsetCorner (points ushapeRoom) [1, 1, 1, 1, 1, 1, 1, 1] 1 0 = Inr \<lparr>px = 1, py = 1\<rparr>"
  "offsetCorner (points ushapeRoom) [1, 1, 1, 1, 1, 1, 1, 1] 1 (Suc 0) = Inr \<lparr>px = 29, py = 1\<rparr>"
  "offsetCorner (points ushapeRoom) [1, 1, 1, 1, 1, 1, 1, 1] 1 2 = Inr \<lparr>px = 29, py = 19\<rparr>"
  "offsetCorner (points ushapeRoom) [1, 1, 1, 1, 1, 1, 1, 1] 1 3 = Inr \<lparr>px = 21, py = 19\<rparr>"
  "offsetCorner (points ushapeRoom) [1, 1, 1, 1, 1, 1, 1, 1] 1 4 = Inr \<lparr>px = 21, py = 9\<rparr>"
  "offsetCorner (points ushapeRoom) [1, 1, 1, 1, 1, 1, 1, 1] 1 5 = Inr \<lparr>px = 9, py = 9\<rparr>"
  "offsetCorner (points ushapeRoom) [1, 1, 1, 1, 1, 1, 1, 1] 1 6 = Inr \<lparr>px = 9, py = 19\<rparr>"
  "offsetCorner (points ushapeRoom) [1, 1, 1, 1, 1, 1, 1, 1] 1 7 = Inr \<lparr>px = 1, py = 19\<rparr>"
  by (simp_all add: offsetCorner_def getEdge_def elem_def ushapeRoom_def lineIntersection_def
      EPS_def Let_def)

lemma ushape_inner:
  "getRoomInnerPolygon ushapeRoom (buildWallEdgeMap ushapeWalls) (1 / 5) 10 =
     Inr (Some [\<lparr>px = 1, py = 1\<rparr>, \<lparr>px = 29, py = 1\<rparr>, \<lparr>px = 29, py = 19\<rparr>, \<lparr>px = 21, py = 19\<rparr>,
                \<lparr>px = 21, py = 9\<rparr>, \<lparr>px = 9, py = 9\<rparr>, \<lparr>px = 9, py = 19\<rparr>, \<lparr>px = 1, py = 19\<rparr>])"
proof -
  have "shoelace (points ushapeRoom) = 1000" by (simp add: ushapeRoom_def shoelace8)
  moreover have "length (points ushapeRoom) = 8" by (simp add: ushapeRoom_def)
  ultimately show ?thesis
    by (simp add: getRoomInnerPolygon_def ushape_offsets offsetPolygon_def polygonAreaSigned_value
        ushape_corners upt_values)
qed

lemma ushape_lengths:
  "roomEdgeLengths ushapeRoom (buildWallEdgeMap ushapeWalls) (1 / 5) 10 5 = [6 / 5]"
  by (simp add: roomEdgeLengths_def ushape_inner upt_values edgeWallId_def)
     (simp add: ushapeRoom_def ushape_walls_at innerEdgeLength_def distance_def)

lemma ushape_notch:
  "borderEdges ushapeRoom (buildWallEdgeMap ushapeWalls) (1 / 5) 10 5 = [4]"
  "edgeLength (points ushapeRoom) 4 = 10"
  "cornersMeet (points ushapeRoom) 4"
  "roomShortening ushapeRoom (buildWallEdgeMap ushapeWalls) (1 / 5) 10 4 = - 2"
proof -
  show "borderEdges ushapeRoom (buildWallEdgeMap ushapeWalls) (1 / 5) 10 5 = [4]"
    by (simp add: borderEdges_def ushape_inner upt_values edgeWallId_def)
       (simp add: ushapeRoom_def ushape_walls_at)
  show "edgeLength (points ushapeRoom) 4 = 10"
    by (simp add: ushapeRoom_def edgeLength_def distance_def)
  show "cornersMeet (points ushapeRoom) 4"
    by (simp add: cornersMeet_def ushapeRoom_def cornerCross_def EPS_def)
  have "shoelace (points ushapeRoom) = 1000" by (simp add: ushapeRoom_def shoelace8)
  then have s: "windingSign (points ushapeRoom) = 1" by (simp add: windingSign_def)
  show "roomShortening ushapeRoom (buildWallEdgeMap ushapeWalls) (1 / 5) 10 4 = - 2"
    unfolding roomShortening_def ushape_offsets shortening_def cornerShift_def s
    by (simp add: ushapeRoom_def edgeLength_def distance_def cornerCross_def cornerDot_def)
qed

text \<open>
  C9 as stated (for every wall of positive thickness that borders a room whose inner
  polygon is computed, the thickness not exceeding the narrow dimension of the room, the
  inner length is strictly less than the outer length) fails at a wall between two
  reflex corners of a room: there the mitered corners move outward along the wall, the
  shortening is negative. On the plan \<open>ushape\<close> the inner polygon is computed, wall 5 is 0.2 m
  thick and 1 m long, its shortening is -2 pixels and the inner length reported for it
  is 1.2 m.
\<close>

theorem inner_length_exceeds_outer_between_reflex_corners:
  "buildRoomsFromWalls ushapeNodes ushapeWalls = Inr [ushapeRoom]
   \<and> ushapeWalls ! 4 = \<lparr>wid = 5, wa = 5, wb = 6, thickness = 1 / 5\<rparr>
   \<and> getRoomInnerPolygon ushapeRoom (buildWallEdgeMap ushapeWalls) (1 / 5) 10 =
       Inr (Some [\<lparr>px = 1, py = 1\<rparr>, \<lparr>px = 29, py = 1\<rparr>, \<lparr>px = 29, py = 19\<rparr>, \<lparr>px = 21, py = 19\<rparr>,
                  \<lparr>px = 21, py = 9\<rparr>, \<lparr>px = 9, py = 9\<rparr>, \<lparr>px = 9, py = 19\<rparr>, \<lparr>px = 1, py = 19\<rparr>])
   \<and> (\<exists>res. getInnerLengthByWallId [ushapeRoom] (buildWallEdgeMap ushapeWalls) (1 / 5) 10 = Inr res
              \<and> res 5 = Some (6 / 5))
   \<and> outerLength ushapeNodes (ushapeWalls ! 4) 10 = 1
   \<and> borderEdges ushapeRoom (buildWallEdgeMap ushapeWalls) (1 / 5) 10 5 = [4]
   \<and> cornersMeet (points ushapeRoom) 4
   \<and> roomShortening ushapeRoom (buildWallEdgeMap ushapeWalls) (1 / 5) 10 4 = - 2"
proof -
  have b: "borderingLengths [ushapeRoom] (buildWallEdgeMap ushapeWalls) (1 / 5) 10 5 = [6 / 5]"
    by (simp add: borderingLengths_def ushape_lengths)
  from getInnerLengthByWallId_fold [of "[ushapeRoom]" "buildWallEdgeMap ushapeWalls" "1 / 5" 10]
  obtain res where res:
    "getInnerLengthByWallId [ushapeRoom] (buildWallEdgeMap ushapeWalls) (1 / 5) 10 = Inr res"
    "res 5 = foldl keepLength None
               (borderingLengths [ushapeRoom] (buildWallEdgeMap ushapeWalls) (1 / 5) 10 5)"
    by blast
  from res(2) have "res 5 = Some (6 / 5)"
    unfolding b by (simp add: keepLength_def)
  with res(1) have r: "\<exists>res. getInnerLengthByWallId [ushapeRoom] (buildWallEdgeMap ushapeWalls) (1 / 5) 10
                          = Inr res \<and> res 5 = Some (6 / 5)"
    by blast
  have w: "ushapeWalls ! 4 = \<lparr>wid = 5, wa = 5, wb = 6, thickness = 1 / 5\<rparr>"
    by (simp add: ushapeWalls_def)
  have o: "outerLength ushapeNodes (ushapeWalls ! 4) 10 = 1"
    unfolding w by (simp add: outerLength_def ushapeNodes_def distance_def)
  have rooms: "buildRoomsFromWalls ushapeNodes ushapeWalls = Inr [ushapeRoom]"
    by (simp add: ushape_rooms ushapeRoom_def)
  from rooms w ushape_inner r o ushape_notch(1,3,4) show ?thesis by (intro conjI)
qed

text \<open>
  The condition on the corners cannot be dropped either. Where a vertex lies on a
  straight side, \<open>offsetPolygon\<close> takes the midpoint of the start points of the two offset
  edges (see C4), which lengthens the edge that starts there: with all offsets 1 the
  edge from \<open>(10, 0)\<close> to \<open>(20, 0)\<close> of the pentagon \<open>notchedSide\<close> becomes the edge from
  \<open>(5, 1)\<close> to \<open>(19, 1)\<close>.
\<close>

lemma notchedSide_offset_corners:
  "offsetCorner notchedSide [1, 1, 1, 1, 1] 1 0 = Inr \<lparr>px = 1, py = 1\<rparr>"
  "offsetCorner notchedSide [1, 1, 1, 1, 1] 1 (Suc 0) = Inr \<lparr>px = 5, py = 1\<rparr>"
  "offsetCorner notchedSide [1, 1, 1, 1, 1] 1 2 = Inr \<lparr>px = 19, py = 1\<rparr>"
  "offsetCorner notchedSide [1, 1, 1, 1, 1] 1 3 = Inr \<lparr>px = 19, py = 9\<rparr>"
  "offsetCorner notchedSide [1, 1, 1, 1, 1] 1 4 = Inr \<lparr>px = 1, py = 9\<rparr>"
  by (simp_all add: offsetCorner_def getEdge_def elem_def notchedSide_def lineIntersection_def
      EPS_def Let_def)

lemma inner_edge_longer_after_collinear_vertex:
  "offsetPolygon notchedSide [1, 1, 1, 1, 1] =
     Inr (Some [\<lparr>px = 1, py = 1\<rparr>, \<lparr>px = 5, py = 1\<rparr>, \<lparr>px = 19, py = 1\<rparr>,
                \<lparr>px = 19, py = 9\<rparr>, \<lparr>px = 1, py = 9\<rparr>])
   \<and> \<not> cornersMeet notchedSide 1
   \<and> edgeLength notchedSide 1 = 10
   \<and> distance \<lparr>px = 5, py = 1\<rparr> \<lparr>px = 19, py = 1\<rparr> = 14"
proof -
  have "shoelace notchedSide = 400" by (simp add: notchedSide_def shoelace5)
  moreover have "length notchedSide = 5" by (simp add: notchedSide_def)
  ultimately have "offsetPolygon notchedSide [1, 1, 1, 1, 1] =
     Inr (Some [\<lparr>px = 1, py = 1\<rparr>, \<lparr>px = 5, py = 1\<rparr>, \<lparr>px = 19, py = 1\<rparr>,
                \<lparr>px = 19, py = 9\<rparr>, \<lparr>px = 1, py = 9\<rparr>])"
    by (simp add: offsetPolygon_def polygonAreaSigned_value notchedSide_offset_corners upt_values)
  moreover have "\<not> cornersMeet notchedSide 1"
    by (simp add: cornersMeet_def notchedSide_def cornerCross_def EPS_def)
  moreover have "edgeLength notchedSide 1 = 10"
    by (simp add: notchedSide_def edgeLength_def distance_def)
  moreover have "distance \<lparr>px = 5, py = 1\<rparr> \<lparr>px = 19, py = 1\<rparr> = 14"
    by (simp add: distance_def)
  ultimately show ?thesis by (intro conjI)
qed

end
